theory Spec2Isabelle
  imports Main
begin

section \<open>AList: the intrusive list of connectedRuntime.cpp\<close>

text \<open>
  An \<open>AList::Item\<close> is an object with one field \<open>_next\<close>; an \<open>AList\<close> holds the head
  pointer \<open>_list\<close> and an embedded item \<open>_marker\<close>. Items are addresses (\<open>nat\<close>), a
  pointer is an \<open>item option\<close> (\<open>None\<close> is \<open>NULL\<close>), and the \<open>_next\<close> fields of all items
  form one store, \<open>inext\<close>, because the same item is linked into different lists over time.

  The operations are the single-threaded runs of the source loops: with no other thread
  the compare-and-swap at the end of each \<open>do ... while\<close> succeeds the first time. A
  \<open>continue\<close> inside a \<open>do ... while\<close> jumps to the loop condition, so when the head's
  \<open>_next\<close> is the marker the compare-and-swap is still executed, without the preceding
  \<open>set_next\<close>. The local \<open>lock\<close> item of \<open>remove\<close> is installed and replaced again
  within the call and is not part of the state.
\<close>

type_synonym item = nat

record AList =
  alist :: "item option"
  amarker :: item
  inext :: "item \<Rightarrow> item option"

definition AList_add :: "AList \<Rightarrow> item \<Rightarrow> AList" where
  "AList_add l i =
     (case alist l of
        None \<Rightarrow> l\<lparr>alist := Some i, inext := (inext l)(i := None)\<rparr>
      | Some head \<Rightarrow>
          if inext l head = Some (amarker l)
          then l\<lparr>alist := Some i\<rparr>
          else l\<lparr>alist := Some i, inext := (inext l)(i := Some head)\<rparr>)"

text \<open>The walk \<open>while (tail->next()) tail = tail->next()\<close> does not return on a cyclic chain.\<close>

partial_function (option) find_tail :: "(item \<Rightarrow> item option) \<Rightarrow> item \<Rightarrow> item option" where
  "find_tail h t = (case h t of None \<Rightarrow> Some t | Some n \<Rightarrow> find_tail h n)"

definition AList_add_list :: "AList \<Rightarrow> item \<Rightarrow> AList option" where
  "AList_add_list l c =
     (case find_tail (inext l) c of
        None \<Rightarrow> None
      | Some tail \<Rightarrow>
          (case alist l of
             None \<Rightarrow> Some (l\<lparr>alist := Some c, inext := (inext l)(tail := None)\<rparr>)
           | Some head \<Rightarrow>
               if inext l head = Some (amarker l)
               then Some (l\<lparr>alist := Some c\<rparr>)
               else Some (l\<lparr>alist := Some c, inext := (inext l)(tail := Some head)\<rparr>)))"

definition AList_remove :: "AList \<Rightarrow> item option \<times> AList" where
  "AList_remove l =
     (case alist l of
        None \<Rightarrow> (None, l)
      | Some head \<Rightarrow>
          (Some head, l\<lparr>alist := inext l head, inext := (inext l)(head := None)\<rparr>))"

definition AList_init :: "item \<Rightarrow> (item \<Rightarrow> item option) \<Rightarrow> AList" where
  "AList_init m h = \<lparr>alist = None, amarker = m, inext = h(m := None)\<rparr>"

text \<open>Repeated \<open>remove\<close> until it returns \<open>NULL\<close>; the items in the order returned.\<close>

partial_function (option) drain :: "item list \<Rightarrow> AList \<Rightarrow> (item list \<times> AList) option" where
  "drain acc l =
     (case AList_remove l of
        (None, l') \<Rightarrow> Some (rev acc, l')
      | (Some x, l') \<Rightarrow> drain (x # acc) l')"

text \<open>
  A caller of \<open>add_list\<close> builds its chain with \<open>set_next\<close>, as \<open>flush_buffers\<close> does;
  \<open>link_chain\<close> is the store after linking the items of \<open>ys\<close> in this order, the last
  one to \<open>NULL\<close>.
\<close>

fun link_chain :: "(item \<Rightarrow> item option) \<Rightarrow> item list \<Rightarrow> (item \<Rightarrow> item option)" where
  "link_chain h [] = h"
| "link_chain h [y] = h(y := None)"
| "link_chain h (y # z # ys) = link_chain (h(y := Some z)) (z # ys)"

datatype alist_op = Add item | Add_list "item list"

fun items_of :: "alist_op \<Rightarrow> item list" where
  "items_of (Add i) = [i]"
| "items_of (Add_list ys) = ys"

text \<open>\<open>add_list(NULL)\<close> dereferences \<open>NULL\<close>: an empty chain is an error (\<open>None\<close>).\<close>

fun run_op :: "AList \<Rightarrow> alist_op \<Rightarrow> AList option" where
  "run_op l (Add i) = Some (AList_add l i)"
| "run_op l (Add_list []) = None"
| "run_op l (Add_list (y # ys)) = AList_add_list (l\<lparr>inext := link_chain (inext l) (y # ys)\<rparr>) y"

fun run_ops :: "AList \<Rightarrow> alist_op list \<Rightarrow> AList option" where
  "run_ops l [] = Some l"
| "run_ops l (p # ps) = (case run_op l p of None \<Rightarrow> None | Some l' \<Rightarrow> run_ops l' ps)"

definition insertion_order :: "alist_op list \<Rightarrow> item list" where
  "insertion_order ps = concat (map items_of ps)"

text \<open>The last operation's items first, every chain in its own link order.\<close>

definition lifo_order :: "alist_op list \<Rightarrow> item list" where
  "lifo_order ps = concat (rev (map items_of ps))"

text \<open>
  The items in the order in which \<open>remove\<close> returns them, after the operations \<open>ps\<close>
  on a new list whose marker is \<open>m\<close>; \<open>None\<close> when an operation or the draining
  does not return.
\<close>

definition removed_order :: "item \<Rightarrow> (item \<Rightarrow> item option) \<Rightarrow> alist_op list \<Rightarrow> item list option" where
  "removed_order m h ps =
     (case run_ops (AList_init m h) ps of
        None \<Rightarrow> None
      | Some l \<Rightarrow> map_option fst (drain [] l))"

text \<open>The list an \<open>AList\<close> represents: the path from \<open>_list\<close> to \<open>NULL\<close>.\<close>

fun chain :: "(item \<Rightarrow> item option) \<Rightarrow> item option \<Rightarrow> item list \<Rightarrow> bool" where
  "chain h p [] = (p = None)"
| "chain h p (x # xs) = (p = Some x \<and> chain h (h x) xs)"

definition is_alist :: "AList \<Rightarrow> item list \<Rightarrow> bool" where
  "is_alist l xs \<longleftrightarrow> chain (inext l) (alist l) xs \<and> distinct xs \<and> amarker l \<notin> set xs"

section \<open>Sizes and layout\<close>

text \<open>
  \<open>uintx\<close> is the unsigned machine word (64 bits on LP64). Sizes and offsets are \<open>nat\<close>;
  where the source subtracts or multiplies them the wrap-around is written out.
\<close>

definition uintx_bits :: nat where
  "uintx_bits = 64"

definition uintx_sub :: "nat \<Rightarrow> nat \<Rightarrow> nat" where
  "uintx_sub a b = (if b \<le> a then a - b else a + 2 ^ uintx_bits - b)"

definition uintx_add :: "nat \<Rightarrow> nat \<Rightarrow> nat" where
  "uintx_add a b = (a + b) mod 2 ^ uintx_bits"

definition uintx_of_jint :: "int \<Rightarrow> nat" where
  "uintx_of_jint i = (if 0 \<le> i then nat i else nat (2 ^ uintx_bits + i))"

text \<open>
  \<open>align_up\<close> of utilities/align.hpp is not under src/: the next multiple of the alignment,
  which is what the macro computes for the powers of two it is used with.
\<close>

definition align_up :: "nat \<Rightarrow> nat \<Rightarrow> nat" where
  "align_up sz alignment = ((sz + alignment - 1) div alignment) * alignment"

definition K :: nat where
  "K = 1024"

text \<open>
  The offsets and sizes of the message classes are fixed by the compiler, not by the
  source text; they are a parameter. \<open>lp64\<close> is the layout of the classes as declared
  on an LP64 target (4-byte enum and \<open>jint\<close>, 8-byte pointers, a 32-byte digest).
\<close>

record layout =
  align :: nat
  offset_of_source :: nat
  sizeof_CrsClassLoadMessage :: nat
  offset_of_source_and_name :: nat
  sizeof_CrsFirstCallMessage :: nat
  offset_of_method_name :: nat

definition lp64 :: layout where
  "lp64 = \<lparr>align = 8, offset_of_source = 60, sizeof_CrsClassLoadMessage = 64,
           offset_of_source_and_name = 52, sizeof_CrsFirstCallMessage = 24,
           offset_of_method_name = 12\<rparr>"

text \<open>
  What ends a run of the model without a result: a division by zero, a read through
  \<open>NULL\<close>, an access to memory that does not hold what is read there, a loop that
  does not end.
\<close>

datatype error =
  Division_by_zero
| Null_pointer
| Bad_memory
| Never_returns

text \<open>The conversion of a \<open>uintx\<close> to \<open>int\<close>: the low 32 bits, read as signed.\<close>

definition int_of_uintx :: "nat \<Rightarrow> int" where
  "int_of_uintx x = (if x mod 2 ^ 32 < 2 ^ 31 then int (x mod 2 ^ 32) else int (x mod 2 ^ 32) - 2 ^ 32)"

section \<open>C strings\<close>

definition NUL :: char where
  "NUL = CHR 0x00"

text \<open>The string that starts at the beginning of a byte array, and its \<open>strlen\<close>.\<close>

definition c_str :: "char list \<Rightarrow> char list" where
  "c_str bytes = takeWhile (\<lambda>c. c \<noteq> NUL) bytes"

definition strlen :: "char list \<Rightarrow> nat" where
  "strlen bytes = length (c_str bytes)"

text \<open>\<open>strcpy\<close> writes the string and its terminator.\<close>

definition strcpy :: "char list \<Rightarrow> char list" where
  "strcpy src = c_str src @ [NUL]"

text \<open>
  \<open>Symbol::as_C_string(buf, size)\<close>, with \<open>size\<close> an \<open>int\<close>, writes at most \<open>size - 1\<close>
  bytes of the symbol and a terminator, nothing when \<open>size\<close> is not positive.
\<close>

definition as_C_string :: "char list \<Rightarrow> int \<Rightarrow> char list" where
  "as_C_string name sz = (if sz \<le> 0 then [] else take (nat sz - 1) name @ [NUL])"

text \<open>
  \<open>memcpy(dst, src, n)\<close> from the bytes of a field. The bytes behind the field are not
  modelled: a copy of more bytes than the field holds is an error.
\<close>

definition memcpy :: "char list \<Rightarrow> nat \<Rightarrow> error + char list" where
  "memcpy src n = (if n \<le> length src then Inr (take n src) else Inl Bad_memory)"

section \<open>Messages\<close>

type_synonym thread = nat
type_synonym crs_traceid = int

datatype CrsNotificationType =
  CRS_MESSAGE_CLASS_LOAD
| CRS_MESSAGE_FIRST_CALL
| CRS_MESSAGE_DELETED
| CRS_MESSAGE_CLASS_LOAD_BLOWN
| CRS_MESSAGE_FIRST_CALL_BLOWN

record InstanceKlass =
  klass_name :: "char list"
  klass_crs_trace_id :: crs_traceid
  loader_crs_trace_id :: crs_traceid

record Method =
  method_name :: "char list"
  method_signature :: "char list"
  method_holder :: InstanceKlass

text \<open>
  The fields of the four message classes behind the common header. A field the
  constructor does not write (\<open>_hash\<close> without a digest, \<open>_source\<close> without a source)
  holds \<open>[]\<close>.
\<close>

record CrsClassLoadMessage =
  cl_klass :: InstanceKlass
  cl_loaderId :: crs_traceid
  cl_klass_id :: crs_traceid
  cl_has_hash :: bool
  cl_has_source :: bool
  cl_has_same_source :: bool
  cl_hash :: "nat list"
  cl_source :: "char list"

record CrsClassLoadMessageBlown =
  clb_loaderId :: crs_traceid
  clb_klass_id :: crs_traceid
  clb_has_hash :: bool
  clb_has_source :: bool
  clb_hash :: "nat list"
  clb_source_and_name :: "char list"

record CrsFirstCallMessage =
  fc_method :: Method
  fc_holder_id :: crs_traceid

record CrsFirstCallMessageBlown =
  fcb_holder_id :: crs_traceid
  fcb_method_name :: "char list"

datatype CrsBody =
  ClassLoad CrsClassLoadMessage
| ClassLoadBlown CrsClassLoadMessageBlown
| FirstCall CrsFirstCallMessage
| FirstCallBlown CrsFirstCallMessageBlown
| NoBody

text \<open>The header \<open>_type\<close>, \<open>_size\<close> (a \<open>u2\<close>) and the fields of the subclass.\<close>

record CrsMessage =
  msg_type :: CrsNotificationType
  msg_size :: nat
  msg_body :: CrsBody

text \<open>The constructor \<open>CrsMessage(type, size)\<close> stores \<open>(u2)size\<close>.\<close>

definition CrsMessage_new :: "CrsNotificationType \<Rightarrow> nat \<Rightarrow> CrsBody \<Rightarrow> CrsMessage" where
  "CrsMessage_new t sz body = \<lparr>msg_type = t, msg_size = sz mod 2 ^ 16, msg_body = body\<rparr>"

definition switch_type :: "CrsMessage \<Rightarrow> CrsNotificationType \<Rightarrow> CrsMessage" where
  "switch_type msg new_type = msg\<lparr>msg_type := new_type\<rparr>"

section \<open>TLB: a thread's buffer\<close>

text \<open>
  A buffer is known by its index in \<open>_buffers\<close>. Its memory is a map from the offset at
  which a message was constructed to the message; a pointer into a buffer is the pair of
  the buffer and the offset. The only back reference is
  \<open>CRS_MESSAGE_BACK_REFERENCE_CLASS_LOAD\<close>, so \<open>_reference_message\<close> is one pointer, held
  as the offset in this buffer.
\<close>

record TLB =
  pos :: nat
  owner :: "thread option"
  reference_message :: "nat option"
  messages :: "nat \<Rightarrow> CrsMessage option"

definition TLB_lease :: "TLB \<Rightarrow> thread \<Rightarrow> TLB" where
  "TLB_lease b t = b\<lparr>pos := 0, owner := Some t, reference_message := None\<rparr>"

definition TLB_release :: "TLB \<Rightarrow> TLB" where
  "TLB_release b = b\<lparr>owner := None\<rparr>"

definition TLB_alloc :: "layout \<Rightarrow> TLB \<Rightarrow> nat \<Rightarrow> nat \<times> TLB" where
  "TLB_alloc L b sz = (pos b, b\<lparr>pos := pos b + align_up sz (align L)\<rparr>)"

section \<open>TLBManager: the pool of buffers\<close>

text \<open>
  \<open>_free_list\<close>, \<open>_leased_list\<close> and \<open>_uncommitted_list\<close> are \<open>AList\<close>s of buffers.
  Each is held as the list it represents, head first: \<open>add\<close> puts a buffer in front,
  \<open>add_list\<close> puts a chain in front, \<open>remove\<close> takes the head. \<open>_not_finished\<close> and the
  local chain \<open>uncommitted\<close> of \<open>flush_buffers\<close> are chains built with \<open>set_next\<close>, the
  buffer linked last in front.

  \<open>os_script\<close> is the environment: the results of the coming calls of
  \<open>os::commit_memory\<close> and \<open>os::uncommit_memory\<close>, in the order of the calls; a call
  beyond the script succeeds.
\<close>

record TLBManager =
  free_list :: "nat list"
  leased_list :: "nat list"
  uncommitted_list :: "nat list"
  buffers :: "nat \<Rightarrow> TLB"
  buffer_size :: nat
  num_committed :: int
  buffers_count :: nat
  area_size :: nat
  bytes_used :: nat
  not_finished :: "nat list"
  os_script :: "bool list"

definition os_call :: "TLBManager \<Rightarrow> bool \<times> TLBManager" where
  "os_call m = (case os_script m of [] \<Rightarrow> (True, m) | r # rs \<Rightarrow> (r, m\<lparr>os_script := rs\<rparr>))"

text \<open>
  The sizes the constructor computes from the requested area size and
  \<open>os::vm_page_size()\<close>: the number of buffers, the size of a buffer and the number of
  buffers committed at once. The last division is by the buffer size.
\<close>

definition TLBManager_sizes :: "nat \<Rightarrow> nat \<Rightarrow> error + (nat \<times> nat \<times> int)" where
  "TLBManager_sizes page sz =
     (let initialCommittedSizeEstimate = min (640 * K) sz;
          desiredBufferSize = 8 * K;
          count0 = sz div desiredBufferSize;
          count1 = (if count0 < 2 then 2 else count0);
          size1 = align_up (sz div count1) page;
          size2 = (if size1 > 2 ^ 16 then 2 ^ 16 else size1);
          count2 = (if size1 > 2 ^ 16 then sz div 2 ^ 16 else count1)
      in if size2 = 0 then Inl Division_by_zero
         else Inr (count2, size2,
                   int (min (max 1 (initialCommittedSizeEstimate div size2)) count2)))"

text \<open>
  The constructor. \<open>tlbs\<close> is the memory of the new array \<open>_buffers\<close>: \<open>TLB()\<close> sets the
  owner to \<open>NULL\<close> and leaves \<open>_pos\<close> and the back reference as they are. When the first
  commit fails the constructor calls \<open>ConnectedRuntime::disable\<close> and returns with the
  three lists empty; the second component of the result is \<open>False\<close> then. The two
  \<open>for\<close> loops add the buffers from the highest index down, so the lists are ascending.
\<close>

definition TLBManager_new ::
    "nat \<Rightarrow> nat \<Rightarrow> bool list \<Rightarrow> (nat \<Rightarrow> TLB) \<Rightarrow> error + (TLBManager \<times> bool)" where
  "TLBManager_new page sz os tlbs =
     (case TLBManager_sizes page sz of
        Inl e \<Rightarrow> Inl e
      | Inr (count, bsize, committed) \<Rightarrow>
          (case os_call \<lparr>free_list = [], leased_list = [], uncommitted_list = [],
                         buffers = (\<lambda>i. (tlbs i)\<lparr>owner := None\<rparr>), buffer_size = bsize,
                         num_committed = committed, buffers_count = count,
                         area_size = (count * bsize) mod 2 ^ uintx_bits, bytes_used = 0,
                         not_finished = [], os_script = os\<rparr> of
             (False, m) \<Rightarrow> Inr (m, False)
           | (True, m) \<Rightarrow>
               Inr (m\<lparr>free_list := [0..<nat committed],
                       uncommitted_list := [nat committed..<count]\<rparr>, True)))"

definition lease :: "TLBManager \<Rightarrow> nat \<Rightarrow> thread \<Rightarrow> nat option \<times> TLBManager" where
  "lease m to_lease t =
     (Some to_lease,
      m\<lparr>buffers := (buffers m)(to_lease := TLB_lease (buffers m to_lease) t),
        leased_list := to_lease # leased_list m,
        bytes_used := uintx_add (bytes_used m) (buffer_size m)\<rparr>)"

definition lease_buffer :: "TLBManager \<Rightarrow> thread \<Rightarrow> nat option \<times> TLBManager" where
  "lease_buffer m t =
     (case free_list m of
        to_lease # rest \<Rightarrow> lease (m\<lparr>free_list := rest\<rparr>) to_lease t
      | [] \<Rightarrow>
          (case uncommitted_list m of
             to_lease # rest \<Rightarrow>
               (case os_call (m\<lparr>uncommitted_list := rest\<rparr>) of
                  (False, m1) \<Rightarrow>
                    (None, m1\<lparr>uncommitted_list := to_lease # uncommitted_list m1\<rparr>)
                | (True, m1) \<Rightarrow>
                    lease (m1\<lparr>num_committed := num_committed m1 + 1\<rparr>) to_lease t)
           | [] \<Rightarrow> (None, m)))"

definition release :: "TLBManager \<Rightarrow> nat \<Rightarrow> TLBManager" where
  "release m b = m\<lparr>buffers := (buffers m)(b := TLB_release (buffers m b))\<rparr>"

text \<open>
  \<open>ensure\<close>. The test \<open>_buffer_size - buffer->pos() >= size\<close> is on \<open>uintx\<close>: the
  difference wraps around when the position is behind the end of the buffer.
\<close>

definition ensure :: "TLBManager \<Rightarrow> nat option \<Rightarrow> nat \<Rightarrow> thread \<Rightarrow> nat option \<times> TLBManager" where
  "ensure m buffer sz t =
     (case buffer of
        Some b \<Rightarrow>
          if sz \<le> uintx_sub (buffer_size m) (pos (buffers m b)) then (Some b, m)
          else lease_buffer (release m b) t
      | None \<Rightarrow> lease_buffer m t)"

definition TLBManager_alloc :: "layout \<Rightarrow> TLBManager \<Rightarrow> nat \<Rightarrow> nat \<Rightarrow> (nat \<times> nat) \<times> TLBManager" where
  "TLBManager_alloc L m b sz =
     (case TLB_alloc L (buffers m b) sz of
        (p, tlb) \<Rightarrow> ((b, p), m\<lparr>buffers := (buffers m)(b := tlb)\<rparr>))"

definition uncommit_buffer :: "TLBManager \<Rightarrow> nat \<Rightarrow> nat list \<Rightarrow> bool \<times> TLBManager \<times> nat list" where
  "uncommit_buffer m b uncommitted =
     (case os_call m of
        (True, m1) \<Rightarrow> (True, m1\<lparr>num_committed := num_committed m1 - 1\<rparr>, b # uncommitted)
      | (False, m1) \<Rightarrow> (False, m1, uncommitted))"

text \<open>
  The first loop of \<open>flush_buffers\<close>, which takes buffers from \<open>_leased_list\<close> until it
  is empty. \<open>bs\<close> is what is left of the list. The closure works on one buffer and on a
  state of its own (for the flush, the agent), and may fail.
\<close>

type_synonym 's closure = "TLB \<Rightarrow> 's \<Rightarrow> error + (TLB \<times> 's)"

fun flush_leased ::
    "'s closure \<Rightarrow> nat list \<Rightarrow> nat \<Rightarrow> nat list \<Rightarrow> TLBManager \<Rightarrow> 's
      \<Rightarrow> error + (nat \<times> nat list \<times> TLBManager \<times> 's)" where
  "flush_leased f [] to_uncommit uncommitted m s = Inr (to_uncommit, uncommitted, m, s)"
| "flush_leased f (to_flush # bs) to_uncommit uncommitted m s =
     (case owner (buffers m to_flush) of
        Some t \<Rightarrow>
          flush_leased f bs to_uncommit uncommitted
            (m\<lparr>leased_list := bs, not_finished := to_flush # not_finished m\<rparr>) s
      | None \<Rightarrow>
          (case f (buffers m to_flush) s of
             Inl e \<Rightarrow> Inl e
           | Inr (tlb, s1) \<Rightarrow>
               (if to_uncommit \<noteq> 0 then
                  (case uncommit_buffer
                          (m\<lparr>leased_list := bs, buffers := (buffers m)(to_flush := tlb),
                             bytes_used := uintx_sub (bytes_used m) (buffer_size m)\<rparr>)
                          to_flush uncommitted of
                     (True, m1, uncommitted1) \<Rightarrow>
                       flush_leased f bs (to_uncommit - 1) uncommitted1 m1 s1
                   | (False, m1, uncommitted1) \<Rightarrow>
                       flush_leased f bs to_uncommit uncommitted1
                         (m1\<lparr>free_list := to_flush # free_list m1\<rparr>) s1)
                else
                  flush_leased f bs to_uncommit uncommitted
                    (m\<lparr>leased_list := bs, buffers := (buffers m)(to_flush := tlb),
                       bytes_used := uintx_sub (bytes_used m) (buffer_size m),
                       free_list := to_flush # free_list m\<rparr>) s1)))"

text \<open>
  The second loop, \<open>while (to_uncommit)\<close>: a buffer is taken from \<open>_free_list\<close> and
  uncommitted; when the list is empty or the uncommit fails the loop is left.
\<close>

fun uncommit_free :: "nat \<Rightarrow> nat list \<Rightarrow> TLBManager \<Rightarrow> nat list \<times> TLBManager" where
  "uncommit_free 0 uncommitted m = (uncommitted, m)"
| "uncommit_free (Suc n) uncommitted m =
     (case free_list m of
        [] \<Rightarrow> (uncommitted, m)
      | b # rest \<Rightarrow>
          (case uncommit_buffer (m\<lparr>free_list := rest\<rparr>) b uncommitted of
             (True, m1, uncommitted1) \<Rightarrow> uncommit_free n uncommitted1 m1
           | (False, m1, uncommitted1) \<Rightarrow> (uncommitted1, m1)))"

definition flush_buffers :: "'s closure \<Rightarrow> nat \<Rightarrow> TLBManager \<Rightarrow> 's \<Rightarrow> error + (TLBManager \<times> 's)" where
  "flush_buffers f committed_goal m s =
     (if buffer_size m = 0 then Inl Division_by_zero
      else
        let goal = committed_goal div buffer_size m;
            to_uncommit = (if goal < uintx_of_jint (num_committed m)
                           then uintx_of_jint (num_committed m) - goal else 0)
        in case flush_leased f (leased_list m) to_uncommit [] m s of
             Inl e \<Rightarrow> Inl e
           | Inr (to_uncommit1, uncommitted1, m1, s1) \<Rightarrow>
               (case uncommit_free to_uncommit1 uncommitted1
                       (m1\<lparr>leased_list := not_finished m1 @ leased_list m1,
                           not_finished := []\<rparr>) of
                  (uncommitted2, m2) \<Rightarrow>
                    Inr (m2\<lparr>uncommitted_list := uncommitted2 @ uncommitted_list m2\<rparr>, s1)))"

section \<open>NativeMemory and the state of the subsystem\<close>

record NativeMemory =
  tlb_manager :: TLBManager
  previous_usage :: nat
  overflow :: bool

datatype tty_line = Overflow_data_lost nat nat

datatype upcall =
  NotifyClassLoad "char list" "nat list option" crs_traceid crs_traceid "char list option"
| NotifyFirstCall crs_traceid "char list"

text \<open>
  The statics of connectedRuntime.cpp and what they reach: the pointer \<open>memory\<close>, the
  \<open>_buffer\<close> of every thread's \<open>CRSThreadLocalData\<close>, the \<open>_should_notify\<close> flags of the
  two message classes and of \<open>CRSToJavaCallEvent\<close>, \<open>UseCRS\<close> and \<open>_is_init\<close>; the lines
  printed on \<open>tty\<close> and the upcalls made into the agent are kept as lists, the latest
  last.

  The pointer \<open>memory\<close> is \<open>NULL\<close> or points to the one \<open>NativeMemory\<close>: \<open>memory_NULL\<close>
  tells which, and the field \<open>memory\<close> is the object while the pointer is not \<open>NULL\<close>.
  After \<open>delete memory; memory = NULL\<close> the field stays as it was and is not read:
  an entry that dereferences the pointer returns \<open>Null_pointer\<close> then.
\<close>

record vm =
  memory :: NativeMemory
  memory_NULL :: bool
  crs_thread_locals :: "thread \<Rightarrow> nat option"
  class_load_should_notify :: bool
  first_call_should_notify :: bool
  tojava_call_should_notify :: bool
  UseCRS :: bool
  is_init :: bool
  tty :: "tty_line list"
  agent :: "upcall list"

text \<open>\<open>VMThread::vm_thread()\<close>, the one thread of the model that is not a \<open>JavaThread\<close>.\<close>

definition vm_thread :: thread where
  "vm_thread = 0"

definition manager :: "vm \<Rightarrow> TLBManager" where
  "manager v = tlb_manager (memory v)"

definition set_manager :: "vm \<Rightarrow> TLBManager \<Rightarrow> vm" where
  "set_manager v m = v\<lparr>memory := (memory v)\<lparr>tlb_manager := m\<rparr>\<rparr>"

definition set_overflow :: "vm \<Rightarrow> bool \<Rightarrow> vm" where
  "set_overflow v b = v\<lparr>memory := (memory v)\<lparr>overflow := b\<rparr>\<rparr>"

definition set_buffer :: "vm \<Rightarrow> thread \<Rightarrow> nat option \<Rightarrow> vm" where
  "set_buffer v t b = v\<lparr>crs_thread_locals := (crs_thread_locals v)(t := b)\<rparr>"

text \<open>The message at a pointer, and a placement \<open>new\<close> at a pointer.\<close>

definition message_at :: "vm \<Rightarrow> nat \<times> nat \<Rightarrow> CrsMessage option" where
  "message_at v p = messages (buffers (manager v) (fst p)) (snd p)"

definition TLB_put :: "TLB \<Rightarrow> nat \<Rightarrow> CrsMessage \<Rightarrow> TLB" where
  "TLB_put b p msg = b\<lparr>messages := (messages b)(p := Some msg)\<rparr>"

definition put_message :: "vm \<Rightarrow> nat \<times> nat \<Rightarrow> CrsMessage \<Rightarrow> vm" where
  "put_message v p msg =
     set_manager v ((manager v)\<lparr>buffers :=
       (buffers (manager v))(fst p := TLB_put (buffers (manager v) (fst p)) (snd p) msg)\<rparr>)"

definition NativeMemory_new :: "nat \<Rightarrow> nat \<Rightarrow> bool list \<Rightarrow> (nat \<Rightarrow> TLB) \<Rightarrow> error + (NativeMemory \<times> bool)" where
  "NativeMemory_new page sz os tlbs =
     (case TLBManager_new page sz os tlbs of
        Inl e \<Rightarrow> Inl e
      | Inr (m, ok) \<Rightarrow>
          Inr (\<lparr>tlb_manager = m,
                previous_usage = (uintx_of_jint (num_committed m) * buffer_size m) mod 2 ^ uintx_bits,
                overflow = False\<rparr>, ok))"

text \<open>
  \<open>alloc(size, thread)\<close>. The result is the pointer returned, \<open>None\<close> for \<open>NULL\<close>, and the
  state.
\<close>

definition NativeMemory_alloc :: "layout \<Rightarrow> vm \<Rightarrow> nat \<Rightarrow> thread \<Rightarrow> (nat \<times> nat) option \<times> vm" where
  "NativeMemory_alloc L v sz t =
     (if overflow (memory v) then (None, v)
      else
        (case ensure (manager v) (crs_thread_locals v t) sz t of
           (new_buffer, m1) \<Rightarrow>
             let v1 = (if new_buffer \<noteq> crs_thread_locals v t
                       then set_buffer (set_manager v m1) t new_buffer
                       else set_manager v m1)
             in (case new_buffer of
                   Some b \<Rightarrow>
                     (case TLBManager_alloc L m1 b sz of
                        (message, m2) \<Rightarrow> (Some message, set_manager v1 m2))
                 | None \<Rightarrow> (None, set_overflow v1 True))))"

text \<open>
  \<open>alloc(back_ref_id, is_reference, size, size_reference, thread)\<close>; the second
  component of the result is \<open>*is_reference\<close> at the return.
\<close>

definition NativeMemory_alloc_ref ::
    "layout \<Rightarrow> vm \<Rightarrow> bool \<Rightarrow> nat \<Rightarrow> nat \<Rightarrow> thread \<Rightarrow> (nat \<times> nat) option \<times> bool \<times> vm" where
  "NativeMemory_alloc_ref L v is_reference sz size_reference t =
     (if overflow (memory v) then (None, is_reference, v)
      else
        (case ensure (manager v) (crs_thread_locals v t) sz t of
           (new_buffer, m1) \<Rightarrow>
             let v1 = (if new_buffer \<noteq> crs_thread_locals v t
                       then set_buffer (set_manager v m1) t new_buffer
                       else set_manager v m1);
                 is_reference1 = (if new_buffer \<noteq> crs_thread_locals v t then True
                                  else is_reference)
             in (case new_buffer of
                   Some b \<Rightarrow>
                     (case TLBManager_alloc L m1 b
                             (if is_reference1 then size_reference else sz) of
                        (message, m2) \<Rightarrow>
                          (Some message, is_reference1,
                           set_manager v1
                             (if is_reference1
                              then m2\<lparr>buffers := (buffers m2)
                                     (b := (buffers m2 b)\<lparr>reference_message := Some (snd message)\<rparr>)\<rparr>
                              else m2)))
                 | None \<Rightarrow> (None, is_reference1, set_overflow v1 True))))"

definition NativeMemory_reference_message :: "vm \<Rightarrow> thread \<Rightarrow> (nat \<times> nat) option" where
  "NativeMemory_reference_message v t =
     (case crs_thread_locals v t of
        Some b \<Rightarrow> map_option (Pair b) (reference_message (buffers (manager v) b))
      | None \<Rightarrow> None)"


section \<open>The message classes\<close>

definition DL_SHA256 :: nat where
  "DL_SHA256 = 32"

text \<open>
  The constructor of \<open>CrsClassLoadMessage\<close>. Of \<open>reference\<close> only whether it is \<open>NULL\<close>
  is used. \<open>memcpy\<close> takes the \<open>sizeof(_hash)\<close> bytes of the digest.
\<close>

definition CrsClassLoadMessage_new ::
    "nat \<Rightarrow> InstanceKlass \<Rightarrow> nat list option \<Rightarrow> char list option \<Rightarrow> bool \<Rightarrow> CrsMessage" where
  "CrsClassLoadMessage_new sz ikh hash source has_reference =
     CrsMessage_new CRS_MESSAGE_CLASS_LOAD sz
       (ClassLoad
         \<lparr>cl_klass = ikh,
          cl_loaderId = loader_crs_trace_id ikh,
          cl_klass_id = klass_crs_trace_id ikh,
          cl_has_hash = (hash \<noteq> None),
          cl_has_source = (\<not> has_reference \<and> source \<noteq> None),
          cl_has_same_source = has_reference,
          cl_hash = (case hash of Some h \<Rightarrow> take DL_SHA256 h | None \<Rightarrow> []),
          cl_source = (case source of
                         Some src \<Rightarrow> if has_reference then [] else strcpy src
                       | None \<Rightarrow> [])\<rparr>)"

text \<open>
  The message a pointer refers to, read as a \<open>CrsClassLoadMessage\<close>. A pointer to
  memory that holds no class load message is an error of the model.
\<close>

definition class_load_at :: "vm \<Rightarrow> nat \<times> nat \<Rightarrow> error + (CrsMessage \<times> CrsClassLoadMessage)" where
  "class_load_at v p =
     (case message_at v p of
        Some msg \<Rightarrow> (case msg_body msg of ClassLoad c \<Rightarrow> Inr (msg, c) | _ \<Rightarrow> Inl Bad_memory)
      | None \<Rightarrow> Inl Bad_memory)"

text \<open>
  \<open>CrsClassLoadMessage::post\<close>. \<open>source\<close> is the memory at the pointer, \<open>None\<close> for
  \<open>NULL\<close>. The result is the local \<open>msg\<close> and the state.
\<close>

definition CrsClassLoadMessage_post ::
    "layout \<Rightarrow> vm \<Rightarrow> InstanceKlass \<Rightarrow> nat list option \<Rightarrow> char list option \<Rightarrow> thread
      \<Rightarrow> error + ((nat \<times> nat) option \<times> vm)" where
  "CrsClassLoadMessage_post L v ikh hash source t =
     (case (case NativeMemory_reference_message v t of
              None \<Rightarrow> Inr None
            | Some p \<Rightarrow>
                (case class_load_at v p of
                   Inl e \<Rightarrow> Inl e
                 | Inr (msg, c) \<Rightarrow> Inr (if cl_has_source c then Some c else None))) of
        Inl e \<Rightarrow> Inl e
      | Inr previous_reference \<Rightarrow>
          let source1 = (case source of
                           Some src \<Rightarrow> if c_str src = [] then None else Some src
                         | None \<Rightarrow> None);
              is_new_reference =
                (case source1 of
                   Some src \<Rightarrow>
                     (case previous_reference of
                        Some c \<Rightarrow> c_str (cl_source c) \<noteq> c_str src
                      | None \<Rightarrow> True)
                 | None \<Rightarrow> False);
              size_reference = offset_of_source L
                 + (case source1 of Some src \<Rightarrow> strlen src + 1 | None \<Rightarrow> 0);
              sz = (if is_new_reference then size_reference else sizeof_CrsClassLoadMessage L)
          in (case NativeMemory_alloc_ref L v is_new_reference sz size_reference t of
                (None, is_new_reference1, v1) \<Rightarrow> Inr (None, v1)
              | (Some msg, is_new_reference1, v1) \<Rightarrow>
                  Inr (Some msg,
                       put_message v1 msg
                         (CrsClassLoadMessage_new
                            (if is_new_reference1 then size_reference else sz)
                            ikh hash source1
                            (\<not> is_new_reference1 \<and> previous_reference \<noteq> None)))))"

text \<open>
  \<open>CrsClassLoadMessageBlown\<close>: the size of the source to copy, as \<open>post\<close> computes it
  on \<open>uintx\<close>, and the bytes of \<open>_source_and_name\<close>, as the constructor writes them:
  the source by \<open>memcpy\<close>, the name by \<open>as_C_string\<close> with the size
  \<open>size - (name - (char*)this)\<close>, converted to \<open>int\<close>.
\<close>

definition blown_source_size :: "layout \<Rightarrow> vm \<Rightarrow> nat \<Rightarrow> CrsMessage \<Rightarrow> CrsClassLoadMessage \<Rightarrow> error + nat" where
  "blown_source_size L v from_tlb from_message c =
     (if cl_has_source c then Inr (uintx_sub (msg_size from_message) (offset_of_source L))
      else if cl_has_same_source c then
        (case reference_message (buffers (manager v) from_tlb) of
           None \<Rightarrow> Inl Null_pointer
         | Some r \<Rightarrow>
             (case class_load_at v (from_tlb, r) of
                Inl e \<Rightarrow> Inl e
              | Inr (reference, rc) \<Rightarrow>
                  Inr (uintx_sub (msg_size reference) (offset_of_source L))))
      else Inr 0)"

definition blown_source :: "vm \<Rightarrow> nat \<Rightarrow> CrsClassLoadMessage \<Rightarrow> nat \<Rightarrow> error + char list" where
  "blown_source v from_tlb c source_size =
     (if cl_has_source c then memcpy (cl_source c) source_size
      else if cl_has_same_source c then
        (case reference_message (buffers (manager v) from_tlb) of
           None \<Rightarrow> Inl Null_pointer
         | Some r \<Rightarrow>
             (case class_load_at v (from_tlb, r) of
                Inl e \<Rightarrow> Inl e
              | Inr (reference, rc) \<Rightarrow> memcpy (cl_source rc) source_size))
      else Inr [])"

definition CrsClassLoadMessageBlown_new ::
    "layout \<Rightarrow> nat \<Rightarrow> CrsClassLoadMessage \<Rightarrow> char list \<Rightarrow> nat \<Rightarrow> CrsMessage" where
  "CrsClassLoadMessageBlown_new L sz c source_bytes source_size =
     CrsMessage_new CRS_MESSAGE_CLASS_LOAD_BLOWN sz
       (ClassLoadBlown
         \<lparr>clb_loaderId = cl_loaderId c,
          clb_klass_id = cl_klass_id c,
          clb_has_hash = cl_has_hash c,
          clb_has_source = (cl_has_source c \<or> cl_has_same_source c),
          clb_hash = cl_hash c,
          clb_source_and_name =
            source_bytes @
            as_C_string (klass_name (cl_klass c))
              (int_of_uintx
                 (uintx_sub sz (uintx_add (offset_of_source_and_name L) source_size)))\<rparr>)"

definition CrsClassLoadMessageBlown_post ::
    "layout \<Rightarrow> vm \<Rightarrow> nat \<Rightarrow> CrsMessage \<Rightarrow> CrsClassLoadMessage \<Rightarrow> thread
      \<Rightarrow> error + ((nat \<times> nat) option \<times> vm)" where
  "CrsClassLoadMessageBlown_post L v from_tlb from_message c t =
     (case blown_source_size L v from_tlb from_message c of
        Inl e \<Rightarrow> Inl e
      | Inr source_size \<Rightarrow>
          let sz = (offset_of_source_and_name L + source_size
                     + length (klass_name (cl_klass c)) + 1) mod 2 ^ uintx_bits
          in (case NativeMemory_alloc L v sz t of
                (None, v1) \<Rightarrow> Inr (None, v1)
              | (Some msg, v1) \<Rightarrow>
                  (case blown_source v1 from_tlb c source_size of
                     Inl e \<Rightarrow> Inl e
                   | Inr source_bytes \<Rightarrow>
                       Inr (Some msg,
                            put_message v1 msg
                              (CrsClassLoadMessageBlown_new L sz c source_bytes source_size)))))"

text \<open>
  \<open>CrsClassLoadMessage::blow\<close> of the message at offset \<open>p\<close> of the buffer \<open>tlb\<close>; the
  first component of the result is the pointer to the blown message, \<open>None\<close> when none
  was written.
\<close>

definition CrsClassLoadMessage_blow ::
    "layout \<Rightarrow> vm \<Rightarrow> nat \<Rightarrow> nat \<Rightarrow> thread \<Rightarrow> error + ((nat \<times> nat) option \<times> vm)" where
  "CrsClassLoadMessage_blow L v tlb p t =
     (case class_load_at v (tlb, p) of
        Inl e \<Rightarrow> Inl e
      | Inr (this, c) \<Rightarrow>
          (case CrsClassLoadMessageBlown_post L v tlb this c t of
             Inl e \<Rightarrow> Inl e
           | Inr (blown, v1) \<Rightarrow>
               (case message_at v1 (tlb, p) of
                  None \<Rightarrow> Inl Bad_memory
                | Some this1 \<Rightarrow>
                    Inr (blown, put_message v1 (tlb, p) (switch_type this1 CRS_MESSAGE_DELETED)))))"

definition CrsFirstCallMessage_new :: "layout \<Rightarrow> Method \<Rightarrow> CrsMessage" where
  "CrsFirstCallMessage_new L method =
     CrsMessage_new CRS_MESSAGE_FIRST_CALL (sizeof_CrsFirstCallMessage L)
       (FirstCall \<lparr>fc_method = method,
                   fc_holder_id = klass_crs_trace_id (method_holder method)\<rparr>)"

definition CrsFirstCallMessage_post ::
    "layout \<Rightarrow> vm \<Rightarrow> Method \<Rightarrow> thread \<Rightarrow> (nat \<times> nat) option \<times> vm" where
  "CrsFirstCallMessage_post L v method t =
     (case NativeMemory_alloc L v (sizeof_CrsFirstCallMessage L) t of
        (None, v1) \<Rightarrow> (None, v1)
      | (Some msg, v1) \<Rightarrow> (Some msg, put_message v1 msg (CrsFirstCallMessage_new L method)))"

text \<open>
  The constructor of \<open>CrsFirstCallMessageBlown\<close> writes the name with its terminator
  and then the signature over the terminator.
\<close>

definition CrsFirstCallMessageBlown_new :: "layout \<Rightarrow> nat \<Rightarrow> CrsFirstCallMessage \<Rightarrow> CrsMessage" where
  "CrsFirstCallMessageBlown_new L sz fc =
     CrsMessage_new CRS_MESSAGE_FIRST_CALL_BLOWN sz
       (FirstCallBlown
         \<lparr>fcb_holder_id = fc_holder_id fc,
          fcb_method_name =
            take (length (method_name (fc_method fc)))
              (as_C_string (method_name (fc_method fc))
                 (int_of_uintx (uintx_sub sz (offset_of_method_name L))))
            @ as_C_string (method_signature (fc_method fc))
                (int_of_uintx
                   (uintx_sub (uintx_sub sz (offset_of_method_name L))
                      (length (method_name (fc_method fc)))))\<rparr>)"

definition CrsFirstCallMessageBlown_post ::
    "layout \<Rightarrow> vm \<Rightarrow> CrsFirstCallMessage \<Rightarrow> thread \<Rightarrow> (nat \<times> nat) option \<times> vm" where
  "CrsFirstCallMessageBlown_post L v fc t =
     (let sz = (offset_of_method_name L + length (method_name (fc_method fc))
                 + length (method_signature (fc_method fc)) + 1) mod 2 ^ uintx_bits
      in case NativeMemory_alloc L v sz t of
           (None, v1) \<Rightarrow> (None, v1)
         | (Some msg, v1) \<Rightarrow>
             (Some msg, put_message v1 msg (CrsFirstCallMessageBlown_new L sz fc)))"

definition CrsDeletedMessage_new :: CrsMessage where
  "CrsDeletedMessage_new = CrsMessage_new CRS_MESSAGE_DELETED 0 NoBody"

section \<open>Processing messages\<close>

text \<open>
  \<open>process\<close> makes the upcall into the agent; an exception of the agent is cleared and
  has no effect. A message is processed in its buffer, at its offset \<open>p\<close>.
\<close>

definition CrsClassLoadMessage_process ::
    "TLB \<Rightarrow> nat \<Rightarrow> CrsClassLoadMessage \<Rightarrow> upcall list \<Rightarrow> error + (TLB \<times> upcall list)" where
  "CrsClassLoadMessage_process tlb p c a =
     (case (if cl_has_source c
            then Inr (Some (c_str (cl_source c)), tlb\<lparr>reference_message := Some p\<rparr>)
            else if cl_has_same_source c then
              (case reference_message tlb of
                 None \<Rightarrow> Inl Null_pointer
               | Some r \<Rightarrow>
                   (case messages tlb r of
                      None \<Rightarrow> Inl Bad_memory
                    | Some reference \<Rightarrow>
                        (case msg_body reference of
                           ClassLoad rc \<Rightarrow> Inr (Some (c_str (cl_source rc)), tlb)
                         | _ \<Rightarrow> Inl Bad_memory)))
            else Inr (None, tlb)) of
        Inl e \<Rightarrow> Inl e
      | Inr (source, tlb1) \<Rightarrow>
          Inr (tlb1,
               a @ [NotifyClassLoad (klass_name (cl_klass c))
                      (if cl_has_hash c then Some (cl_hash c) else None)
                      (cl_klass_id c) (cl_loaderId c) source]))"

definition CrsClassLoadMessageBlown_process ::
    "CrsClassLoadMessageBlown \<Rightarrow> upcall list \<Rightarrow> upcall list" where
  "CrsClassLoadMessageBlown_process c a =
     (let name = (if clb_has_source c
                  then drop (strlen (clb_source_and_name c) + 1) (clb_source_and_name c)
                  else clb_source_and_name c)
      in a @ [NotifyClassLoad (c_str name)
                (if clb_has_hash c then Some (clb_hash c) else None)
                (clb_klass_id c) (clb_loaderId c)
                (if clb_has_source c then Some (c_str (clb_source_and_name c)) else None)])"

definition CrsFirstCallMessage_process :: "CrsFirstCallMessage \<Rightarrow> upcall list \<Rightarrow> upcall list" where
  "CrsFirstCallMessage_process fc a =
     (let method_name_length = length (method_name (fc_method fc));
          method_sig_length = length (method_signature (fc_method fc));
          name = take method_name_length
                   (as_C_string (method_name (fc_method fc))
                      (int_of_uintx (method_name_length + 1)))
                 @ as_C_string (method_signature (fc_method fc))
                     (int_of_uintx (method_sig_length + 1))
      in a @ [NotifyFirstCall (fc_holder_id fc) (c_str name)])"

definition CrsFirstCallMessageBlown_process ::
    "CrsFirstCallMessageBlown \<Rightarrow> upcall list \<Rightarrow> upcall list" where
  "CrsFirstCallMessageBlown_process fcb a =
     a @ [NotifyFirstCall (fcb_holder_id fcb) (c_str (fcb_method_name fcb))]"

text \<open>
  \<open>CrsMessage::process\<close> casts by the type in the header. A header type that does not
  fit the fields behind it is not written by any code of the file; it is an error of the
  model.
\<close>

definition CrsMessage_process ::
    "TLB \<Rightarrow> nat \<Rightarrow> CrsMessage \<Rightarrow> upcall list \<Rightarrow> error + (TLB \<times> upcall list)" where
  "CrsMessage_process tlb p msg a =
     (case msg_type msg of
        CRS_MESSAGE_CLASS_LOAD \<Rightarrow>
          (case msg_body msg of
             ClassLoad c \<Rightarrow> CrsClassLoadMessage_process tlb p c a
           | _ \<Rightarrow> Inl Bad_memory)
      | CRS_MESSAGE_CLASS_LOAD_BLOWN \<Rightarrow>
          (case msg_body msg of
             ClassLoadBlown c \<Rightarrow> Inr (tlb, CrsClassLoadMessageBlown_process c a)
           | _ \<Rightarrow> Inl Bad_memory)
      | CRS_MESSAGE_FIRST_CALL \<Rightarrow>
          (case msg_body msg of
             FirstCall fc \<Rightarrow> Inr (tlb, CrsFirstCallMessage_process fc a)
           | _ \<Rightarrow> Inl Bad_memory)
      | CRS_MESSAGE_FIRST_CALL_BLOWN \<Rightarrow>
          (case msg_body msg of
             FirstCallBlown fcb \<Rightarrow> Inr (tlb, CrsFirstCallMessageBlown_process fcb a)
           | _ \<Rightarrow> Inl Bad_memory)
      | CRS_MESSAGE_DELETED \<Rightarrow> Inr (tlb, a))"

text \<open>The step of the walk over a buffer past one message.\<close>

definition walk_step :: "layout \<Rightarrow> CrsMessage \<Rightarrow> nat" where
  "walk_step L msg = align_up (msg_size msg) (align L)"

text \<open>
  \<open>MessageClosure::tlb_do\<close> with the \<open>message_do\<close> of \<open>TLBFlushClosure\<close>: the loop
  \<open>while (p < f)\<close>, with \<open>f\<close> the position of the buffer at the start. A message with a
  step of 0 is processed again and again.
\<close>

function message_loop ::
    "layout \<Rightarrow> nat \<Rightarrow> nat \<Rightarrow> TLB \<Rightarrow> upcall list \<Rightarrow> error + (TLB \<times> upcall list)" where
  "message_loop L f p tlb a =
     (if p < f then
        (case messages tlb p of
           None \<Rightarrow> Inl Bad_memory
         | Some msg \<Rightarrow>
             if walk_step L msg = 0 then Inl Never_returns
             else
               (case CrsMessage_process tlb p msg a of
                  Inl e \<Rightarrow> Inl e
                | Inr (tlb1, a1) \<Rightarrow> message_loop L f (p + walk_step L msg) tlb1 a1))
      else Inr (tlb, a))"
  by pat_completeness auto
termination
  by (relation "measure (\<lambda>(L, f, p, tlb, a). f - p)") auto

definition TLBFlushClosure_tlb_do :: "layout \<Rightarrow> upcall list closure" where
  "TLBFlushClosure_tlb_do L tlb a = message_loop L (pos tlb) 0 tlb a"

section \<open>Flushing\<close>

definition NativeMemory_flush :: "layout \<Rightarrow> vm \<Rightarrow> error + vm" where
  "NativeMemory_flush L v =
     (let next_target = uintx_add (previous_usage (memory v)) (bytes_used (manager v)) div 2;
          before = bytes_used (manager v)
      in case flush_buffers (TLBFlushClosure_tlb_do L) next_target (manager v) (agent v) of
           Inl e \<Rightarrow> Inl e
         | Inr (m1, a1) \<Rightarrow>
             Inr (v\<lparr>memory :=
                       \<lparr>tlb_manager = m1, previous_usage = before,
                        overflow = False\<rparr>,
                     agent := a1,
                     tty := (if overflow (memory v)
                             then tty v @ [Overflow_data_lost before (bytes_used m1)]
                             else tty v)\<rparr>))"

text \<open>
  \<open>release_buffers\<close>: \<open>leased_buffers_do\<close> with the \<open>TLBReleaseClosure\<close>, over the leased
  buffers and then the buffers put aside by a flush.
\<close>

definition TLBReleaseClosure_tlb_do :: "vm \<Rightarrow> nat \<Rightarrow> vm" where
  "TLBReleaseClosure_tlb_do v tlb =
     (case owner (buffers (manager v) tlb) of
        Some t \<Rightarrow> set_buffer (set_manager v (release (manager v) tlb)) t None
      | None \<Rightarrow> v)"

definition NativeMemory_release_buffers :: "vm \<Rightarrow> vm" where
  "NativeMemory_release_buffers v =
     foldl TLBReleaseClosure_tlb_do v (leased_list (manager v) @ not_finished (manager v))"

text \<open>
  \<open>VM_CRSOperation\<close>. \<open>VMThread::execute\<close> is not under src/: it runs \<open>doit\<close> of the
  operation with all other threads stopped, unless \<open>doit_prologue\<close> returns false, which
  cancels the operation.
\<close>

record VM_CRSOperation =
  op_pre :: "(vm \<Rightarrow> bool) option"
  op_do :: "vm \<Rightarrow> vm"
  and_stop :: bool

definition doit_prologue :: "VM_CRSOperation \<Rightarrow> vm \<Rightarrow> bool" where
  "doit_prologue op v = (case op_pre op of None \<Rightarrow> True | Some pre \<Rightarrow> pre v)"

definition doit :: "VM_CRSOperation \<Rightarrow> vm \<Rightarrow> vm" where
  "doit op v =
     (if and_stop op
      then (op_do op v)\<lparr>first_call_should_notify := False, class_load_should_notify := False\<rparr>
      else op_do op v)"

definition VMThread_execute :: "VM_CRSOperation \<Rightarrow> vm \<Rightarrow> vm" where
  "VMThread_execute op v = (if doit_prologue op v then doit op v else v)"

text \<open>
  The operation of \<open>flush_buffers\<close>: \<open>release_buffers_pre\<close>, \<open>release_buffers_do\<close> and
  the flag \<open>and_stop\<close>.
\<close>

definition release_buffers_pre :: "vm \<Rightarrow> bool" where
  "release_buffers_pre v = (0 < bytes_used (manager v))"

definition release_buffers_op :: "bool \<Rightarrow> VM_CRSOperation" where
  "release_buffers_op stop =
     \<lparr>op_pre = Some release_buffers_pre, op_do = NativeMemory_release_buffers, and_stop = stop\<rparr>"

text \<open>
  \<open>ConnectedRuntime::flush_buffers\<close>. Once \<open>_is_init\<close> is set, both the prologue of the
  operation and \<open>memory->flush\<close> dereference \<open>memory\<close>.
\<close>

definition ConnectedRuntime_flush_buffers :: "layout \<Rightarrow> bool \<Rightarrow> bool \<Rightarrow> vm \<Rightarrow> error + vm" where
  "ConnectedRuntime_flush_buffers L force stop v =
     (if \<not> is_init v then Inr v
      else if memory_NULL v then Inl Null_pointer
      else NativeMemory_flush L
             (if force then VMThread_execute (release_buffers_op stop) v else v))"

text \<open>
  \<open>notify_class_load\<close> and \<open>notify_first_call\<close>: \<open>post\<close> dereferences \<open>memory\<close>.
\<close>

definition notify_class_load ::
    "layout \<Rightarrow> vm \<Rightarrow> InstanceKlass \<Rightarrow> nat list option \<Rightarrow> char list option \<Rightarrow> thread \<Rightarrow> error + vm" where
  "notify_class_load L v ikh hash source t =
     (if UseCRS v \<and> class_load_should_notify v
      then if memory_NULL v then Inl Null_pointer
           else map_sum id snd (CrsClassLoadMessage_post L v ikh hash source t)
      else Inr v)"

definition notify_first_call :: "layout \<Rightarrow> vm \<Rightarrow> thread \<Rightarrow> Method \<Rightarrow> error + vm" where
  "notify_first_call L v t method =
     (if UseCRS v \<and> first_call_should_notify v
      then if memory_NULL v then Inl Null_pointer
           else Inr (snd (CrsFirstCallMessage_post L v method t))
      else Inr v)"

text \<open>
  \<open>release_memory_do\<close> clears the buffer pointer of every \<open>JavaThread\<close>, deletes the
  memory and sets the pointer to \<open>NULL\<close>. \<open>ConnectedRuntime::disable(msg, need_safepoint)\<close>
  with \<open>msg\<close> \<open>NULL\<close>, as \<open>setNativeEventFilter\<close> calls it, prints nothing.
\<close>

definition release_memory_do :: "vm \<Rightarrow> vm" where
  "release_memory_do v =
     v\<lparr>crs_thread_locals := (\<lambda>t. if t = vm_thread then crs_thread_locals v t else None),
       memory_NULL := True\<rparr>"

definition ConnectedRuntime_disable :: "vm \<Rightarrow> bool \<Rightarrow> vm" where
  "ConnectedRuntime_disable v need_safepoint =
     (if memory_NULL v then v\<lparr>UseCRS := False\<rparr>
      else if need_safepoint
      then VMThread_execute \<lparr>op_pre = None, op_do = release_memory_do, and_stop = True\<rparr>
             (v\<lparr>UseCRS := False\<rparr>)
      else v\<lparr>UseCRS := False, memory_NULL := True\<rparr>)"

text \<open>
  \<open>crs_Agent001_setNativeEventFilter\<close>, the entry the agent calls, with the five cases of
  its switch: \<open>CRS_USE_CRS_COMMAND\<close> (-99), \<open>CRS_EVENT_TO_JAVA_CALL\<close> (-98),
  \<open>CRS_MESSAGE_FIRST_CALL\<close> (1), \<open>CRS_DRAIN_QUEUE_COMMAND\<close> (-100) and
  \<open>CRS_DRAIN_QUEUE_AND_STOP_COMMAND\<close> (-101). The switch has no case for
  \<open>CRS_MESSAGE_CLASS_LOAD\<close> (0) and no default. Enabling \<open>UseCRS\<close> again is refused by
  an assertion and does nothing without it.
\<close>

definition setNativeEventFilter :: "layout \<Rightarrow> vm \<Rightarrow> int \<Rightarrow> bool \<Rightarrow> error + vm" where
  "setNativeEventFilter L v event enabled =
     (if event = - 99
      then Inr (if enabled \<noteq> UseCRS v \<and> \<not> enabled then ConnectedRuntime_disable v True else v)
      else if event = - 98 then Inr (v\<lparr>tojava_call_should_notify := enabled\<rparr>)
      else if event = 1 then Inr (v\<lparr>first_call_should_notify := enabled\<rparr>)
      else if event = - 100 \<or> event = - 101
      then ConnectedRuntime_flush_buffers L enabled (event = - 101) v
      else Inr v)"

text \<open>
  The events of a run: a class load and a first call of a thread, and a call of the
  agent into \<open>setNativeEventFilter\<close>. Each event runs as a whole.
\<close>

datatype event =
  Class_load thread InstanceKlass "nat list option" "char list option"
| First_call thread Method
| Filter int bool

fun run_event :: "layout \<Rightarrow> vm \<Rightarrow> event \<Rightarrow> error + vm" where
  "run_event L v (Class_load t ikh hash source) = notify_class_load L v ikh hash source t"
| "run_event L v (First_call t method) = notify_first_call L v t method"
| "run_event L v (Filter e enabled) = setNativeEventFilter L v e enabled"

fun run_events :: "layout \<Rightarrow> vm \<Rightarrow> event list \<Rightarrow> error + vm" where
  "run_events L v [] = Inr v"
| "run_events L v (e # es) =
     (case run_event L v e of Inl x \<Rightarrow> Inl x | Inr v1 \<Rightarrow> run_events L v1 es)"

fun is_notify :: "event \<Rightarrow> bool" where
  "is_notify (Class_load t ikh hash source) = True"
| "is_notify (First_call t method) = True"
| "is_notify (Filter e enabled) = False"

section \<open>Buffers that can be walked\<close>

text \<open>
  What the walk of \<open>MessageClosure::tlb_do\<close> with \<open>process\<close> needs of a buffer. A message
  fits when the type in its header is the type of its fields and, for a class load
  message that refers to the source of another one, the back reference points to a class
  load message. Processing a class load message with a source makes it the back
  reference. The messages \<open>msgs\<close> can be walked from \<open>p\<close> up to \<open>f\<close> when they lie one
  behind the other from \<open>p\<close> on, each with a step that is not 0, each fits, and the last
  one ends at or behind \<open>f\<close>.
\<close>

definition fits :: "(nat \<Rightarrow> CrsMessage option) \<Rightarrow> nat option \<Rightarrow> CrsMessage \<Rightarrow> bool" where
  "fits ms slot msg =
     (case msg_type msg of
        CRS_MESSAGE_CLASS_LOAD \<Rightarrow>
          (case msg_body msg of
             ClassLoad c \<Rightarrow>
               cl_has_source c \<or> \<not> cl_has_same_source c
               \<or> (case slot of
                     None \<Rightarrow> False
                   | Some r \<Rightarrow>
                       (case ms r of
                          None \<Rightarrow> False
                        | Some reference \<Rightarrow>
                            (case msg_body reference of ClassLoad rc \<Rightarrow> True | _ \<Rightarrow> False)))
           | _ \<Rightarrow> False)
      | CRS_MESSAGE_CLASS_LOAD_BLOWN \<Rightarrow>
          (case msg_body msg of ClassLoadBlown c \<Rightarrow> True | _ \<Rightarrow> False)
      | CRS_MESSAGE_FIRST_CALL \<Rightarrow>
          (case msg_body msg of FirstCall fc \<Rightarrow> True | _ \<Rightarrow> False)
      | CRS_MESSAGE_FIRST_CALL_BLOWN \<Rightarrow>
          (case msg_body msg of FirstCallBlown fcb \<Rightarrow> True | _ \<Rightarrow> False)
      | CRS_MESSAGE_DELETED \<Rightarrow> True)"

definition next_slot :: "nat option \<Rightarrow> nat \<Rightarrow> CrsMessage \<Rightarrow> nat option" where
  "next_slot slot p msg =
     (case msg_type msg of
        CRS_MESSAGE_CLASS_LOAD \<Rightarrow>
          (case msg_body msg of
             ClassLoad c \<Rightarrow> if cl_has_source c then Some p else slot
           | _ \<Rightarrow> slot)
      | _ \<Rightarrow> slot)"

fun walkable ::
    "layout \<Rightarrow> (nat \<Rightarrow> CrsMessage option) \<Rightarrow> nat \<Rightarrow> nat option \<Rightarrow> nat \<Rightarrow> CrsMessage list \<Rightarrow> bool" where
  "walkable L ms f slot p [] = (f \<le> p)"
| "walkable L ms f slot p (msg # rest) =
     (p < f \<and> ms p = Some msg \<and> 0 < walk_step L msg \<and> fits ms slot msg
      \<and> walkable L ms f (next_slot slot p msg) (p + walk_step L msg) rest)"

text \<open>
  A pool can be flushed when the size of its buffers is not 0, no buffer is twice on the
  leased list, and every released buffer on the leased list can be walked, \<open>recs b\<close>
  being the messages of buffer \<open>b\<close>. In a walkable pool every buffer on the leased list
  can be walked, released or not.
\<close>

definition flushable :: "layout \<Rightarrow> TLBManager \<Rightarrow> (nat \<Rightarrow> CrsMessage list) \<Rightarrow> bool" where
  "flushable L m recs \<longleftrightarrow>
     buffer_size m \<noteq> 0 \<and> distinct (leased_list m)
     \<and> (\<forall>b \<in> set (leased_list m).
           owner (buffers m b) = None \<longrightarrow>
             walkable L (messages (buffers m b)) (pos (buffers m b))
               (reference_message (buffers m b)) 0 (recs b))"

definition walkable_pool :: "layout \<Rightarrow> TLBManager \<Rightarrow> (nat \<Rightarrow> CrsMessage list) \<Rightarrow> bool" where
  "walkable_pool L m recs \<longleftrightarrow>
     buffer_size m \<noteq> 0 \<and> distinct (leased_list m)
     \<and> (\<forall>b \<in> set (leased_list m).
           walkable L (messages (buffers m b)) (pos (buffers m b))
             (reference_message (buffers m b)) 0 (recs b))"

text \<open>The upcalls that the walk of the flush over a buffer makes, the agent's list empty.\<close>

definition delivered :: "layout \<Rightarrow> TLB \<Rightarrow> error + upcall list" where
  "delivered L tlb = map_sum id snd (TLBFlushClosure_tlb_do L tlb [])"

section \<open>States used in the examples\<close>

text \<open>The memory of a new array of buffers, a pool of two committed buffers of a given
  size, and the state of the subsystem around a pool, just initialised.\<close>

definition tlb_zero :: "nat \<Rightarrow> TLB" where
  "tlb_zero = (\<lambda>i. \<lparr>pos = 0, owner = None, reference_message = None, messages = (\<lambda>p. None)\<rparr>)"

definition small_pool :: "nat \<Rightarrow> TLBManager" where
  "small_pool bsize =
     \<lparr>free_list = [0, 1], leased_list = [], uncommitted_list = [], buffers = tlb_zero,
      buffer_size = bsize, num_committed = 2, buffers_count = 2, area_size = 2 * bsize,
      bytes_used = 0, not_finished = [], os_script = []\<rparr>"

definition vm_of :: "TLBManager \<Rightarrow> vm" where
  "vm_of m =
     \<lparr>memory = \<lparr>tlb_manager = m,
                 previous_usage = uintx_of_jint (num_committed m) * buffer_size m,
                 overflow = False\<rparr>,
      memory_NULL = False,
      crs_thread_locals = (\<lambda>t. None),
      class_load_should_notify = True, first_call_should_notify = True,
      tojava_call_should_notify = True,
      UseCRS = True, is_init = True, tty = [], agent = []\<rparr>"

text \<open>
  The room left in a buffer: the bytes between its position and its end, none when the
  position is at or behind the end.
\<close>

definition remaining_space :: "TLBManager \<Rightarrow> nat \<Rightarrow> nat" where
  "remaining_space m b = buffer_size m - pos (buffers m b)"

text \<open>The lengths of the three lists, the counter of committed buffers and the number of
  buffers; the conservation of buffers.\<close>

definition pool_counts :: "TLBManager \<Rightarrow> nat \<times> nat \<times> nat \<times> int \<times> nat" where
  "pool_counts m =
     (length (free_list m), length (leased_list m), length (uncommitted_list m),
      num_committed m, buffers_count m)"

definition conservation :: "TLBManager \<Rightarrow> bool" where
  "conservation m \<longleftrightarrow>
     length (free_list m) + length (leased_list m) + length (uncommitted_list m) = buffers_count m
     \<and> num_committed m = int (length (free_list m) + length (leased_list m))"

text \<open>The pool constructed for an area of 16384 bytes with pages of 4096 bytes, in an
  environment where the first commit succeeds and the next uncommit fails.\<close>

definition idle_pool :: TLBManager where
  "idle_pool = fst (projr (TLBManager_new 4096 16384 [True, False] tlb_zero))"

text \<open>
  The source of the message that the back reference of a thread's buffer points to, if
  the thread has a buffer, the back reference is set and that message carries a source:
  what \<open>post\<close> compares a new source with.
\<close>

definition previous_source :: "vm \<Rightarrow> thread \<Rightarrow> char list option" where
  "previous_source v t =
     (case NativeMemory_reference_message v t of
        None \<Rightarrow> None
      | Some p \<Rightarrow>
          (case class_load_at v p of
             Inl e \<Rightarrow> None
           | Inr (msg, c) \<Rightarrow> if cl_has_source c then Some (c_str (cl_source c)) else None))"

text \<open>A class, a pool with pages of 64K, and a source of 65475 characters.\<close>

definition some_klass :: InstanceKlass where
  "some_klass = \<lparr>klass_name = ''A'', klass_crs_trace_id = 1, loader_crs_trace_id = 1\<rparr>"

definition page64k_pool :: TLBManager where
  "page64k_pool = fst (projr (TLBManager_new 65536 131072 [] tlb_zero))"

definition long_source :: "char list" where
  "long_source = replicate 65475 (CHR ''a'')"

text \<open>
  The two forms of a class load message as \<open>post\<close> constructs them: the full form, which
  carries the source, and the reference form, of the size of the class, which carries
  the flag \<open>has_same_source\<close> in place of the source.
\<close>

definition full_record :: "layout \<Rightarrow> InstanceKlass \<Rightarrow> nat list option \<Rightarrow> char list \<Rightarrow> CrsMessage" where
  "full_record L k h s =
     CrsClassLoadMessage_new (offset_of_source L + strlen s + 1) k h (Some s) False"

definition reference_record :: "layout \<Rightarrow> InstanceKlass \<Rightarrow> nat list option \<Rightarrow> char list \<Rightarrow> CrsMessage" where
  "reference_record L k h s =
     CrsClassLoadMessage_new (sizeof_CrsClassLoadMessage L) k h (Some s) True"

text \<open>The state after a class load event of thread \<open>t\<close> for the class of the examples.\<close>

definition after_class_load :: "layout \<Rightarrow> vm \<Rightarrow> char list option \<Rightarrow> thread \<Rightarrow> vm" where
  "after_class_load L v source t =
     snd (projr (CrsClassLoadMessage_post L v some_klass None source t))"



definition oversized_source :: "char list" where
  "oversized_source = replicate 8200 (CHR ''a'')"

text \<open>Two more classes of the same loader, and a method.\<close>

definition klass_B :: InstanceKlass where
  "klass_B = \<lparr>klass_name = ''B'', klass_crs_trace_id = 2, loader_crs_trace_id = 1\<rparr>"

definition klass_C :: InstanceKlass where
  "klass_C = \<lparr>klass_name = ''C'', klass_crs_trace_id = 3, loader_crs_trace_id = 1\<rparr>"

definition some_method :: Method where
  "some_method = \<lparr>method_name = ''run'', method_signature = ''()V'', method_holder = some_klass\<rparr>"

text \<open>
  The state after a class load event for a given class, after a first call, after a
  plain flush, after a forced flush with stop, after blowing a class load message, and
  after a list of events.
\<close>

definition after_post :: "layout \<Rightarrow> vm \<Rightarrow> InstanceKlass \<Rightarrow> char list option \<Rightarrow> thread \<Rightarrow> vm" where
  "after_post L v k source t = snd (projr (CrsClassLoadMessage_post L v k None source t))"

definition after_first_call :: "layout \<Rightarrow> vm \<Rightarrow> thread \<Rightarrow> Method \<Rightarrow> vm" where
  "after_first_call L v t method = projr (notify_first_call L v t method)"


definition after_forced_stop :: "layout \<Rightarrow> vm \<Rightarrow> vm" where
  "after_forced_stop L v = projr (ConnectedRuntime_flush_buffers L True True v)"

definition after_blow :: "layout \<Rightarrow> vm \<Rightarrow> nat \<Rightarrow> nat \<Rightarrow> thread \<Rightarrow> vm" where
  "after_blow L v tlb p t = snd (projr (CrsClassLoadMessage_blow L v tlb p t))"

definition after_events :: "layout \<Rightarrow> vm \<Rightarrow> event list \<Rightarrow> vm" where
  "after_events L v es = projr (run_events L v es)"


text \<open>
  Thread 7 loads the classes A and B from a.jar and then the class C from b.jar.
\<close>

definition three_posts :: vm where
  "three_posts =
     after_post lp64
       (after_post lp64
          (after_post lp64 (vm_of (small_pool 8192)) some_klass (Some ''a.jar'') 7)
          klass_B (Some ''a.jar'') 7)
       klass_C (Some ''b.jar'') 7"

text \<open>
  Thread 7 loads class A from a.jar and thread 8 makes a first call; and the state after
  the forced flush with stop that follows.
\<close>

definition busy_state :: vm where
  "busy_state =
     after_first_call lp64
       (after_class_load lp64 (vm_of (small_pool 8192)) (Some ''a.jar'') 7) 8 some_method"

definition stopped_state :: vm where
  "stopped_state = after_forced_stop lp64 busy_state"

section \<open>Properties of the AList\<close>

subsection \<open>The list operations on the represented list\<close>

lemma chain_upd: "u \<notin> set xs \<Longrightarrow> chain (h(u := v)) p xs = chain h p xs"
  by (induction xs arbitrary: p) auto

lemma chain_upd_if: "u \<notin> set xs \<Longrightarrow> chain (\<lambda>a. if a = u then v else h a) p xs = chain h p xs"
  using chain_upd [of u xs h v p] by (simp add: fun_upd_def)

lemma chain_fun: "chain h p xs \<Longrightarrow> chain h p ys \<Longrightarrow> xs = ys"
proof (induction xs arbitrary: p ys)
  case Nil
  then show ?case by (cases ys) auto
next
  case (Cons x xs)
  then show ?case by (cases ys) auto
qed

lemma is_alist_no_marker_head:
  assumes "is_alist l xs" and "alist l = Some head"
  shows "inext l head \<noteq> Some (amarker l)"
proof
  assume m: "inext l head = Some (amarker l)"
  from assms obtain ys where xs: "xs = head # ys"
    by (cases xs) (auto simp: is_alist_def)
  with assms m have "chain (inext l) (Some (amarker l)) ys"
    by (simp add: is_alist_def)
  then have "amarker l \<in> set ys" by (cases ys) auto
  with assms xs show False by (simp add: is_alist_def)
qed

lemma AList_add_is_alist:
  assumes "is_alist l xs" and "i \<notin> set xs" and "i \<noteq> amarker l"
  shows "is_alist (AList_add l i) (i # xs)"
proof (cases "alist l")
  case None
  with assms have "xs = []" by (cases xs) (auto simp: is_alist_def)
  with None assms show ?thesis by (simp add: AList_add_def is_alist_def)
next
  case (Some head)
  from is_alist_no_marker_head [OF assms(1) Some]
  have nm: "inext l head \<noteq> Some (amarker l)" .
  from assms(1) have "chain (inext l) (Some head) xs"
    by (simp add: is_alist_def Some)
  with assms(2) have "chain ((inext l)(i := Some head)) (Some head) xs"
    by (simp add: chain_upd)
  with Some nm assms show ?thesis
    by (simp add: AList_add_def is_alist_def)
qed

lemma AList_add_marker: "amarker (AList_add l i) = amarker l"
  by (simp add: AList_add_def split: option.splits)

lemma find_tail_chain:
  "chain h (Some c) ys \<Longrightarrow> find_tail h c = Some (last ys)"
proof (induction ys arbitrary: c)
  case Nil
  then show ?case by simp
next
  case (Cons y ys)
  then have c: "c = y" and rest: "chain h (h y) ys" by auto
  show ?case
  proof (cases ys)
    case Nil
    with rest c show ?thesis by (subst find_tail.simps) simp
  next
    case (Cons z zs)
    with rest have hz: "h y = Some z" by simp
    with rest Cons.IH [of z] have "find_tail h z = Some (last ys)" by simp
    with hz c Cons show ?thesis by (subst find_tail.simps) simp
  qed
qed

lemma chain_append_upd:
  "chain h (Some c) ys \<Longrightarrow> distinct ys \<Longrightarrow> chain h q xs \<Longrightarrow> set ys \<inter> set xs = {}
   \<Longrightarrow> chain (h(last ys := q)) (Some c) (ys @ xs)"
proof (induction ys arbitrary: c)
  case Nil
  then show ?case by simp
next
  case (Cons y ys)
  then have c: "c = y" and rest: "chain h (h y) ys" by auto
  show ?case
  proof (cases ys)
    case Nil
    from Cons.prems c have "chain h q xs" and "y \<notin> set xs"
      by simp_all
    with Nil c show ?thesis by (simp add: chain_upd chain_upd_if)
  next
    case (Cons z zs)
    with rest have hz: "h y = Some z" by simp
    from Cons.prems Cons have ny: "y \<noteq> last ys" by auto
    from Cons.prems rest hz
    have "chain (h(last ys := q)) (Some z) (ys @ xs)"
      by (intro Cons.IH) auto
    with ny hz have "chain (h(last ys := q)) (Some y) ((y # ys) @ xs)" by simp
    moreover from Cons have "last (y # ys) = last ys" by simp
    ultimately show ?thesis by (simp only: c)
  qed
qed

lemma AList_add_list_is_alist:
  assumes l: "is_alist l xs"
    and c: "chain (inext l) (Some c) ys" and d: "distinct ys"
    and disj: "set ys \<inter> set xs = {}" and m: "amarker l \<notin> set ys"
  shows "\<exists>l'. AList_add_list l c = Some l' \<and> is_alist l' (ys @ xs) \<and> amarker l' = amarker l"
proof -
  from c have ft: "find_tail (inext l) c = Some (last ys)" by (rule find_tail_chain)
  from l have cx: "chain (inext l) (alist l) xs" by (simp add: is_alist_def)
  from chain_append_upd [OF c d cx disj]
  have app: "chain ((inext l)(last ys := alist l)) (Some c) (ys @ xs)" .
  from l d disj m have dist: "distinct (ys @ xs)" and nm: "amarker l \<notin> set (ys @ xs)"
    by (auto simp: is_alist_def)
  show ?thesis
  proof (cases "alist l")
    case None
    with ft app dist nm show ?thesis
      by (simp add: AList_add_list_def is_alist_def)
  next
    case (Some head)
    from is_alist_no_marker_head [OF l Some]
    have "inext l head \<noteq> Some (amarker l)" .
    with Some ft app dist nm show ?thesis
      by (simp add: AList_add_list_def is_alist_def)
  qed
qed

lemma AList_remove_Cons:
  assumes "is_alist l (x # xs)"
  shows "\<exists>l'. AList_remove l = (Some x, l') \<and> is_alist l' xs \<and> amarker l' = amarker l"
proof -
  from assms have hd: "alist l = Some x" and rest: "chain (inext l) (inext l x) xs"
    and nx: "x \<notin> set xs" and d: "distinct xs" and nm: "amarker l \<notin> set xs"
    by (auto simp: is_alist_def)
  from rest nx have "chain ((inext l)(x := None)) (inext l x) xs"
    by (simp add: chain_upd)
  with hd d nm show ?thesis
    by (simp add: AList_remove_def is_alist_def)
qed

lemma AList_remove_Nil: "is_alist l [] \<Longrightarrow> AList_remove l = (None, l)"
  by (simp add: AList_remove_def is_alist_def)

lemma drain_is_alist:
  "is_alist l xs \<Longrightarrow> \<exists>l'. drain acc l = Some (rev acc @ xs, l') \<and> is_alist l' []"
proof (induction xs arbitrary: acc l)
  case Nil
  then show ?case
    by (subst drain.simps) (simp add: AList_remove_Nil)
next
  case (Cons x xs)
  from AList_remove_Cons [OF Cons.prems] obtain l1
    where r: "AList_remove l = (Some x, l1)" and l1: "is_alist l1 xs" by blast
  from Cons.IH [OF l1, of "x # acc"] obtain l'
    where "drain (x # acc) l1 = Some (rev (x # acc) @ xs, l')" and "is_alist l' []" by blast
  with r show ?case
    by (subst drain.simps) simp
qed

lemma link_chain_other: "u \<notin> set ys \<Longrightarrow> link_chain h ys u = h u"
  by (induction h ys rule: link_chain.induct) auto

lemma link_chain_chain:
  "distinct (y # ys) \<Longrightarrow> chain (link_chain h (y # ys)) (Some y) (y # ys)"
proof (induction h "y # ys" arbitrary: y ys rule: link_chain.induct)
  case (2 h y)
  then show ?case by simp
next
  case (3 h y z ys)
  then have "chain (link_chain (h(y := Some z)) (z # ys)) (Some z) (z # ys)" by simp
  moreover from 3 have "link_chain (h(y := Some z)) (z # ys) y = Some z"
    by (simp add: link_chain_other)
  ultimately show ?case by simp
qed

lemma link_chain_frame:
  "set ys \<inter> set xs = {} \<Longrightarrow> chain (link_chain h ys) p xs = chain h p xs"
  by (induction h ys rule: link_chain.induct) (auto simp: chain_upd)

lemma run_op_is_alist:
  assumes l: "is_alist l xs" and ne: "items_of p \<noteq> []" and d: "distinct (items_of p)"
    and disj: "set (items_of p) \<inter> set xs = {}" and m: "amarker l \<notin> set (items_of p)"
  shows "\<exists>l'. run_op l p = Some l' \<and> is_alist l' (items_of p @ xs) \<and> amarker l' = amarker l"
proof (cases p)
  case (Add i)
  with assms show ?thesis
    by (simp add: AList_add_is_alist AList_add_marker)
next
  case (Add_list ys)
  with ne obtain y zs where ys: "ys = y # zs" by (cases ys) auto
  let ?l = "l\<lparr>inext := link_chain (inext l) (y # zs)\<rparr>"
  from l disj Add_list ys have "is_alist ?l xs"
    by (simp add: is_alist_def link_chain_frame)
  moreover from d Add_list ys have "chain (inext ?l) (Some y) (y # zs)"
    using link_chain_chain [of y zs "inext l"] by simp
  ultimately have "\<exists>l'. AList_add_list ?l y = Some l' \<and> is_alist l' ((y # zs) @ xs)
      \<and> amarker l' = amarker ?l"
    using d disj m Add_list ys by (intro AList_add_list_is_alist) auto
  with Add_list ys show ?thesis by simp
qed

lemma run_ops_is_alist:
  assumes "is_alist l xs" and "\<forall>p \<in> set ps. items_of p \<noteq> []"
    and "distinct (insertion_order ps)" and "set (insertion_order ps) \<inter> set xs = {}"
    and "amarker l \<notin> set (insertion_order ps)"
  shows "\<exists>l'. run_ops l ps = Some l' \<and> is_alist l' (lifo_order ps @ xs)"
  using assms
proof (induction ps arbitrary: l xs)
  case Nil
  then show ?case by (simp add: lifo_order_def)
next
  case (Cons p ps)
  from Cons.prems have "\<exists>l'. run_op l p = Some l' \<and> is_alist l' (items_of p @ xs)
      \<and> amarker l' = amarker l"
    by (intro run_op_is_alist) (auto simp: insertion_order_def)
  then obtain l1 where r: "run_op l p = Some l1" and l1: "is_alist l1 (items_of p @ xs)"
    and m1: "amarker l1 = amarker l" by blast
  from Cons.prems m1
  have "\<exists>l'. run_ops l1 ps = Some l' \<and> is_alist l' (lifo_order ps @ (items_of p @ xs))"
    by (intro Cons.IH [OF l1]) (auto simp: insertion_order_def)
  with r show ?case by (simp add: lifo_order_def)
qed

lemma is_alist_init: "is_alist (AList_init m h) []"
  by (simp add: is_alist_def AList_init_def)

lemma removed_order_lifo:
  assumes "\<forall>p \<in> set ps. items_of p \<noteq> []" and "distinct (insertion_order ps)"
    and "m \<notin> set (insertion_order ps)"
  shows "removed_order m h ps = Some (lifo_order ps)"
proof -
  have "amarker (AList_init m h) = m" by (simp add: AList_init_def)
  with assms is_alist_init [of m h]
  have "\<exists>l'. run_ops (AList_init m h) ps = Some l' \<and> is_alist l' (lifo_order ps @ [])"
    by (intro run_ops_is_alist) auto
  then obtain l where r: "run_ops (AList_init m h) ps = Some l"
    and l: "is_alist l (lifo_order ps)" by auto
  from drain_is_alist [OF l, of "[]"] obtain l'
    where "drain [] l = Some (lifo_order ps, l')" by auto
  with r show ?thesis by (simp add: removed_order_def)
qed

lemma AList_remove_None_iff:
  "is_alist l xs \<Longrightarrow> (fst (AList_remove l) = None) = (xs = [])"
  by (cases xs) (auto simp: AList_remove_def is_alist_def)

lemma lifo_order_set: "set (lifo_order ps) = set (insertion_order ps)"
  by (auto simp: lifo_order_def insertion_order_def)

lemma distinct_concat_rev:
  "distinct (concat xss) \<Longrightarrow> distinct (concat (rev xss))"
proof (induction xss)
  case Nil
  then show ?case by simp
next
  case (Cons xs xss)
  then show ?case by auto
qed

lemma lifo_order_distinct: "distinct (insertion_order ps) \<Longrightarrow> distinct (lifo_order ps)"
  unfolding lifo_order_def insertion_order_def by (rule distinct_concat_rev)

section \<open>Claims about the AList\<close>

text \<open>
  C4, as amended. For any sequence of \<open>add\<close> and \<open>add_list\<close> operations on a new
  list, with pairwise different items that are not the list's marker and no empty chain,
  followed by \<open>remove\<close> until it returns \<open>NULL\<close>: every inserted item is returned exactly
  once, the items of the last operation first (the list is a stack) and the items of one
  chain in their link order; and \<open>remove\<close> returns \<open>NULL\<close> exactly on the empty list.
\<close>

theorem AList_remove_order_lifo:
  assumes "\<forall>p \<in> set ps. items_of p \<noteq> []" and "distinct (insertion_order ps)"
    and "m \<notin> set (insertion_order ps)"
  shows "removed_order m h ps = Some (lifo_order ps)
    \<and> distinct (lifo_order ps) \<and> set (lifo_order ps) = set (insertion_order ps)
    \<and> (\<forall>l xs. is_alist l xs \<longrightarrow> (fst (AList_remove l) = None) = (xs = []))"
  using assms
  by (simp add: removed_order_lifo lifo_order_distinct lifo_order_set AList_remove_None_iff)

theorem AList_remove_order_lifo_witness:
  "removed_order 0 (\<lambda>_. None) [Add 1, Add_list [2, 3], Add 4] = Some [4, 2, 3, 1]
    \<and> (fst (AList_remove (AList_init 0 (\<lambda>_. None))) = None) = (([]::item list) = [])"
proof -
  have "removed_order 0 (\<lambda>_. None) [Add 1, Add_list [2, 3], Add 4]
      = Some (lifo_order [Add 1, Add_list [2, 3], Add 4])
    \<and> (\<forall>l xs. is_alist l xs \<longrightarrow> (fst (AList_remove l) = None) = (xs = []))"
    using AList_remove_order_lifo [of "[Add 1, Add_list [2, 3], Add 4]" 0 "\<lambda>_. None"]
    by (simp add: insertion_order_def)
  then show ?thesis
    using is_alist_init [of 0 "\<lambda>_. None"] by (simp add: lifo_order_def)
qed

text \<open>
  C4 as stated asks for an order of removal consistent with the order of insertion. Two
  items added one after the other come back in the opposite order.
\<close>

theorem AList_insertion_order_counterexample:
  "removed_order 0 (\<lambda>_. None) [Add 1, Add 2] = Some [2, 1]
    \<and> insertion_order [Add 1, Add 2] = [1, 2]"
  using removed_order_lifo [of "[Add 1, Add 2]" 0 "\<lambda>_. None"]
  by (simp add: insertion_order_def lifo_order_def)

section \<open>The sizes of the pool\<close>

lemma align_up_multiple: "align_up x p mod p = 0"
  by (simp add: align_up_def)

lemma align_up_ge: "0 < p \<Longrightarrow> x \<le> align_up x p"
proof -
  assume p: "0 < p"
  have "x + p - 1 < ((x + p - 1) div p) * p + p"
    using p div_mult_mod_eq [of "x + p - 1" p] mod_less_divisor [OF p, of "x + p - 1"] by linarith
  then show ?thesis using p by (simp add: align_up_def)
qed

lemma align_up_le: "align_up x p \<le> x + p - 1"
proof -
  have "((x + p - 1) div p) * p \<le> x + p - 1" by simp
  then show ?thesis by (simp add: align_up_def)
qed

lemma align_up_small: "0 < x \<Longrightarrow> x \<le> p \<Longrightarrow> align_up x p = p"
proof -
  assume x: "0 < x" "x \<le> p"
  then have "(x + p - 1) div p = 1"
    by (intro div_nat_eqI) auto
  then show ?thesis by (simp add: align_up_def)
qed

lemma buffer_quotient_bound:
  fixes sz :: nat
  assumes "2 \<le> c" and "c = (if sz div 8192 < 2 then 2 else sz div 8192)"
  shows "sz div c \<le> 12287"
proof (cases "sz div 8192 < 2")
  case True
  then have "sz < 16384" by (simp add: div_less_iff_less_mult)
  with True assms show ?thesis by simp
next
  case False
  with assms have c: "c = sz div 8192" by simp
  have "sz < 8192 * (sz div 8192) + 8192"
    using div_mult_mod_eq [of sz 8192] mod_less_divisor [of 8192 sz] by linarith
  with c assms(1) have "sz < 12288 * c" by simp
  then have "sz div c < 12288" using assms(1) by (simp add: div_less_iff_less_mult mult.commute)
  then show ?thesis by simp
qed

text \<open>
  For pages of at most 64K and a requested area of at least two bytes the constructor
  computes a positive, page-aligned buffer size of at most 65536, at least two buffers,
  and a number of committed buffers between 1 and the number of buffers.
\<close>

lemma TLBManager_sizes_ok:
  assumes p: "0 < page" "page \<le> 65536" and s: "2 \<le> sz"
  shows "\<exists>count bsize committed. TLBManager_sizes page sz = Inr (count, bsize, committed)
      \<and> bsize mod page = 0 \<and> 0 < bsize \<and> bsize \<le> 65536 \<and> 2 \<le> count
      \<and> 1 \<le> committed \<and> committed \<le> int count"
proof -
  define c where "c = (if sz div 8192 < 2 then 2 else sz div 8192)"
  define x where "x = sz div c"
  define b where "b = align_up x page"
  have c2: "2 \<le> c" by (simp add: c_def)
  have "c \<le> sz" using s by (simp add: c_def) 
  then have x1: "1 \<le> x" using c2 by (simp add: x_def Suc_le_eq div_greater_zero_iff)
  have x2: "x \<le> 12287" unfolding x_def using c2 c_def by (rule buffer_quotient_bound)
  have b1: "0 < b" using align_up_ge [OF p(1), of x] x1 by (simp add: b_def)
  have b2: "b \<le> 65536"
  proof (cases "x \<le> page")
    case True
    with x1 p show ?thesis by (simp add: b_def align_up_small)
  next
    case False
    with x2 align_up_le [of x page] show ?thesis by (simp add: b_def)
  qed
  have "TLBManager_sizes page sz =
      Inr (c, b, int (min (max 1 (min (640 * 1024) sz div b)) c))"
    using b1 b2 by (simp add: TLBManager_sizes_def K_def Let_def c_def x_def b_def)
  moreover have "b mod page = 0" by (simp add: b_def align_up_multiple)
  ultimately show ?thesis using b1 b2 c2 by auto
qed

lemma TLBManager_sizes_committed:
  "TLBManager_sizes page sz = Inr (c, b, k) \<Longrightarrow> 0 \<le> k \<and> nat k \<le> c"
  by (auto simp: TLBManager_sizes_def Let_def split: if_splits)

lemma TLBManager_new_conservation:
  assumes "TLBManager_new page sz os tlbs = Inr (m, True)"
  shows "conservation m"
proof -
  from assms obtain c b k where s: "TLBManager_sizes page sz = Inr (c, b, k)"
    by (cases "TLBManager_sizes page sz") (auto simp: TLBManager_new_def)
  from TLBManager_sizes_committed [OF s] have k: "0 \<le> k" "nat k \<le> c" by simp_all
  from assms s have "free_list m = [0..<nat k]" "uncommitted_list m = [nat k..<c]"
    "leased_list m = []" "num_committed m = k" "buffers_count m = c"
    by (auto simp: TLBManager_new_def os_call_def split: list.splits bool.splits)
  with k show ?thesis by (simp add: conservation_def)
qed

text \<open>
  C10. The claim is for every requested area size. For a requested size of 0 (and of 1)
  the buffer size is \<open>align_up(0, page) = 0\<close>, and the constructor then divides the
  estimate of the committed size by it.
\<close>

theorem TLBManager_sizes_zero_area:
  "TLBManager_sizes 4096 0 = Inl Division_by_zero \<and> TLBManager_sizes 4096 1 = Inl Division_by_zero"
  by (simp add: TLBManager_sizes_def K_def align_up_def Let_def)

section \<open>Conservation of the buffers\<close>

lemma TLBManager_sizes_16384: "TLBManager_sizes 4096 16384 = Inr (2, 8192, 2)"
  by (simp add: TLBManager_sizes_def K_def align_up_def Let_def)

lemma upt_0_2: "[0..<2] = [0, 1]" by (simp add: upt_rec)

lemma idle_pool_eq: "idle_pool = \<lparr>free_list = [0, 1], leased_list = [], uncommitted_list = [],
                         buffers = (\<lambda>i. (tlb_zero i)\<lparr>owner := None\<rparr>), buffer_size = 8192,
                         num_committed = 2, buffers_count = 2,
                         area_size = 16384, bytes_used = 0,
                         not_finished = [], os_script = [False]\<rparr>"
  by (simp add: idle_pool_def TLBManager_new_def TLBManager_sizes_16384 os_call_def uintx_bits_def upt_0_2)

lemma lease_buffer_conservation:
  "conservation m \<Longrightarrow> conservation (snd (lease_buffer m t))"
  by (auto simp: conservation_def lease_buffer_def lease_def os_call_def
           split: list.splits prod.splits bool.splits)

text \<open>When the first commit fails the constructor leaves the three lists empty.\<close>

lemma TLBManager_new_disabled:
  "TLBManager_new 4096 16384 [False] tlb_zero = Inr (m, ok) \<Longrightarrow> \<not> ok \<and> pool_counts m = (0, 0, 0, 2, 2)"
  by (auto simp: TLBManager_new_def TLBManager_sizes_16384 os_call_def pool_counts_def)

text \<open>
  C2. The pool after its construction conserves the buffers: two buffers, both free and
  committed. A flush with a goal of one committed buffer takes a buffer from the free
  list in its second loop; the uncommit fails, the loop is left, and the buffer is put on
  no list: afterwards one buffer is free, none is leased or uncommitted, of two buffers,
  and the counter of committed buffers is still 2. The first loop and \<open>lease_buffer\<close>
  put a buffer back when the operating system refuses.
\<close>

theorem flush_buffers_loses_buffer: "conservation idle_pool \<and>
  map_sum id (pool_counts \<circ> fst) (flush_buffers (TLBFlushClosure_tlb_do lp64) 8192 idle_pool []) = Inr (1, 0, 0, 2, 2)"
  by (simp add: idle_pool_eq conservation_def flush_buffers_def uintx_of_jint_def Let_def
      uncommit_buffer_def os_call_def pool_counts_def)

section \<open>Leasing and allocation\<close>

lemma c_str_replicate: "c \<noteq> NUL \<Longrightarrow> c_str (replicate n c) = replicate n c"
  by (simp add: c_str_def takeWhile_replicate)

lemma strlen_replicate: "c \<noteq> NUL \<Longrightarrow> strlen (replicate n c) = n"
  by (simp add: strlen_def c_str_replicate)

lemma oversized_source_str:
  "c_str oversized_source = oversized_source" "strlen oversized_source = 8200"
  "oversized_source \<noteq> []"
  by (simp_all add: oversized_source_def c_str_replicate strlen_replicate NUL_def)

lemma tlb_zero_owner: "(\<lambda>i. (tlb_zero i)\<lparr>owner := None\<rparr>) = tlb_zero"
  by (simp add: tlb_zero_def)

lemma small_pool_constructed:
  "TLBManager_new 4096 16384 [] tlb_zero = Inr (small_pool 8192, True)"
  by (simp add: TLBManager_new_def TLBManager_sizes_16384 os_call_def uintx_bits_def upt_0_2
      small_pool_def tlb_zero_owner)

lemma lease_buffer_fresh:
  "lease_buffer m t = (Some b, m') \<Longrightarrow>
     pos (buffers m' b) = 0 \<and> owner (buffers m' b) = Some t
     \<and> b \<in> set (free_list m) \<union> set (uncommitted_list m) \<and> buffer_size m' = buffer_size m"
  by (auto simp: lease_buffer_def lease_def os_call_def TLB_lease_def
           split: list.splits prod.splits bool.splits)

lemma release_buffer_size: "buffer_size (release m b) = buffer_size m"
  by (simp add: release_def)

lemma release_lists: "free_list (release m b) = free_list m" "uncommitted_list (release m b) = uncommitted_list m"
  by (simp_all add: release_def)

lemma release_owner: "owner (buffers (release m b) b) = None"
  by (simp add: release_def TLB_release_def)

lemma lease_buffer_other:
  "lease_buffer m t = (r, m') \<Longrightarrow> b \<notin> set (free_list m) \<union> set (uncommitted_list m)
     \<Longrightarrow> buffers m' b = buffers m b"
  by (auto simp: lease_buffer_def lease_def os_call_def
           split: list.splits prod.splits bool.splits)

text \<open>
  Within the bounds of the buffer \<open>ensure\<close> does what its name says. For a size of
  at most the buffer size and a buffer whose position is not behind its end: \<open>ensure\<close>
  returns the buffer and leaves the pool as it is when the room left is at least the
  size; otherwise it is \<open>lease_buffer\<close> on the pool with the buffer released, the old
  buffer has no owner afterwards (when it is on the leased list, as a buffer of a thread
  is), and a buffer it then returns comes from the free or the uncommitted list and is
  leased to the thread at position 0; the room left in a returned buffer is at least the
  size.
\<close>

lemma ensure_within:
  assumes sz: "sz \<le> buffer_size m"
    and inb: "\<forall>b. buf = Some b \<longrightarrow> pos (buffers m b) \<le> buffer_size m"
  shows "(\<forall>b. buf = Some b \<and> sz \<le> remaining_space m b \<longrightarrow> ensure m buf sz t = (Some b, m))
    \<and> ((\<forall>b. buf = Some b \<longrightarrow> \<not> sz \<le> remaining_space m b) \<longrightarrow>
         ensure m buf sz t = lease_buffer (case buf of Some b \<Rightarrow> release m b | None \<Rightarrow> m) t
         \<and> (\<forall>b r m'. buf = Some b \<and> ensure m buf sz t = (r, m')
                \<and> b \<notin> set (free_list m) \<union> set (uncommitted_list m)
              \<longrightarrow> owner (buffers m' b) = None)
         \<and> (\<forall>b' m'. ensure m buf sz t = (Some b', m') \<longrightarrow>
               pos (buffers m' b') = 0 \<and> owner (buffers m' b') = Some t
               \<and> b' \<in> set (free_list m) \<union> set (uncommitted_list m)))
    \<and> (\<forall>b' m'. ensure m buf sz t = (Some b', m') \<longrightarrow> sz \<le> remaining_space m' b')"
proof -
  have rs: "uintx_sub (buffer_size m) (pos (buffers m b)) = remaining_space m b" if "buf = Some b" for b
    using inb that by (simp add: uintx_sub_def remaining_space_def)
  have A: "ensure m buf sz t = (Some b, m)" if "buf = Some b" and "sz \<le> remaining_space m b" for b
    using that rs by (simp add: ensure_def)
  have B: "ensure m buf sz t = lease_buffer (case buf of Some b \<Rightarrow> release m b | None \<Rightarrow> m) t"
    if "\<forall>b. buf = Some b \<longrightarrow> \<not> sz \<le> remaining_space m b"
    using that rs by (cases buf) (simp_all add: ensure_def)
  have C: "pos (buffers m' b') = 0 \<and> owner (buffers m' b') = Some t
      \<and> b' \<in> set (free_list m) \<union> set (uncommitted_list m)"
    if n: "\<forall>b. buf = Some b \<longrightarrow> \<not> sz \<le> remaining_space m b"
      and e: "ensure m buf sz t = (Some b', m')" for b' m'
  proof -
    from B [OF n] e
    have "lease_buffer (case buf of Some b \<Rightarrow> release m b | None \<Rightarrow> m) t = (Some b', m')"
      by simp
    from lease_buffer_fresh [OF this] show ?thesis
      by (cases buf) (simp_all add: release_lists)
  qed
  have O: "owner (buffers m' b) = None"
    if n: "\<forall>b. buf = Some b \<longrightarrow> \<not> sz \<le> remaining_space m b"
      and b: "buf = Some b" and e: "ensure m buf sz t = (r, m')"
      and l: "b \<notin> set (free_list m) \<union> set (uncommitted_list m)" for b r m'
  proof -
    from B [OF n] e b have "lease_buffer (release m b) t = (r, m')" by simp
    from lease_buffer_other [OF this, of b] l have "buffers m' b = buffers (release m b) b"
      by (simp add: release_lists)
    then show ?thesis by (simp add: release_owner)
  qed
  have D: "sz \<le> remaining_space m' b'" if e: "ensure m buf sz t = (Some b', m')" for b' m'
  proof (cases "\<exists>b. buf = Some b \<and> sz \<le> remaining_space m b")
    case True
    with e A show ?thesis by auto
  next
    case False
    then have "\<forall>b. buf = Some b \<longrightarrow> \<not> sz \<le> remaining_space m b" by blast
    from B [OF this] e
    have "lease_buffer (case buf of Some b \<Rightarrow> release m b | None \<Rightarrow> m) t = (Some b', m')"
      by simp
    from lease_buffer_fresh [OF this] sz show ?thesis
      by (cases buf) (simp_all add: remaining_space_def release_buffer_size)
  qed
  from A B C D O show ?thesis by blast
qed

lemmas post_eval = CrsClassLoadMessage_post_def NativeMemory_reference_message_def
  NativeMemory_alloc_ref_def class_load_at_def Let_def
  manager_def ensure_def lease_buffer_def lease_def release_def TLB_lease_def TLB_release_def
  TLBManager_alloc_def uintx_sub_def
  TLB_alloc_def set_manager_def set_buffer_def set_overflow_def put_message_def TLB_put_def
  message_at_def CrsClassLoadMessage_new_def CrsMessage_new_def tlb_zero_def
  vm_of_def small_pool_def after_class_load_def

lemmas first_call_eval = notify_first_call_def CrsFirstCallMessage_post_def NativeMemory_alloc_def
  CrsFirstCallMessage_new_def

text \<open>
  C3. The pool of two buffers of 8192 bytes is the pool the constructor makes for an area
  of 16384 bytes and pages of 4096 bytes. Thread 7 loads a class whose source has 8200
  characters: the message of \<open>60 + 8200 + 1\<close> bytes is constructed at offset 0 of a new
  buffer, whose position is 8264 then, behind its end. For the next event of the thread,
  a first call of 24 bytes, \<open>ensure\<close> returns this buffer, in which no room is left:
  \<open>_buffer_size - buffer->pos()\<close> has wrapped around. The message of the first call is
  constructed at offset 8264, behind the end of the buffer.
\<close>

theorem ensure_returns_overfull_buffer:
  "TLBManager_new 4096 16384 [] tlb_zero = Inr (small_pool 8192, True)
   \<and> CrsClassLoadMessage_post lp64 (vm_of (small_pool 8192)) some_klass None (Some oversized_source) 7
       = Inr (Some (0, 0), after_class_load lp64 (vm_of (small_pool 8192)) (Some oversized_source) 7)
   \<and> crs_thread_locals (after_class_load lp64 (vm_of (small_pool 8192)) (Some oversized_source) 7) 7
       = Some 0
   \<and> buffer_size (manager (after_class_load lp64 (vm_of (small_pool 8192)) (Some oversized_source) 7))
       = 8192
   \<and> pos (buffers (manager
             (after_class_load lp64 (vm_of (small_pool 8192)) (Some oversized_source) 7)) 0)
       = 8264
   \<and> ensure (manager (after_class_load lp64 (vm_of (small_pool 8192)) (Some oversized_source) 7))
        (Some 0) 24 7
       = (Some 0, manager (after_class_load lp64 (vm_of (small_pool 8192)) (Some oversized_source) 7))
   \<and> remaining_space
        (manager (after_class_load lp64 (vm_of (small_pool 8192)) (Some oversized_source) 7)) 0 = 0
   \<and> notify_first_call lp64
        (after_class_load lp64 (vm_of (small_pool 8192)) (Some oversized_source) 7) 7 some_method
       = Inr (after_first_call lp64
                (after_class_load lp64 (vm_of (small_pool 8192)) (Some oversized_source) 7)
                7 some_method)
   \<and> message_at
        (after_first_call lp64
           (after_class_load lp64 (vm_of (small_pool 8192)) (Some oversized_source) 7)
           7 some_method) (0, 8264)
       = Some (CrsFirstCallMessage_new lp64 some_method)"
proof -
  have "TLBManager_new 4096 16384 [] tlb_zero = Inr (small_pool 8192, True)"
    by (rule small_pool_constructed)
  then show ?thesis
    by (simp add: post_eval oversized_source_str lp64_def align_up_def
      remaining_space_def first_call_eval uintx_bits_def after_first_call_def)
qed

section \<open>The overflow flag\<close>

text \<open>The walk over a buffer that can be walked returns, and so does the flush of a pool
  that can be flushed.\<close>

lemma process_fits:
  assumes "fits (messages tlb) (reference_message tlb) msg"
  shows "\<exists>a'. CrsMessage_process tlb p msg a
           = Inr (tlb\<lparr>reference_message := next_slot (reference_message tlb) p msg\<rparr>, a')"
  using assms
  by (auto simp: fits_def next_slot_def CrsMessage_process_def CrsClassLoadMessage_process_def
        split: CrsNotificationType.splits CrsBody.splits option.splits)

lemma message_loop_walkable:
  "walkable L (messages tlb) f (reference_message tlb) p recs
     \<Longrightarrow> \<exists>r. message_loop L f p tlb a = Inr r"
proof (induction recs arbitrary: tlb p a)
  case Nil
  then show ?case by simp
next
  case (Cons msg rest)
  from Cons.prems have pf: "p < f" and m: "messages tlb p = Some msg"
    and st: "0 < walk_step L msg" and ft: "fits (messages tlb) (reference_message tlb) msg"
    and w: "walkable L (messages tlb) f (next_slot (reference_message tlb) p msg)
              (p + walk_step L msg) rest"
    by simp_all
  from process_fits [OF ft, of p a] obtain a' where
    pr: "CrsMessage_process tlb p msg a
           = Inr (tlb\<lparr>reference_message := next_slot (reference_message tlb) p msg\<rparr>, a')"
    by blast
  let ?tlb = "tlb\<lparr>reference_message := next_slot (reference_message tlb) p msg\<rparr>"
  from w have "walkable L (messages ?tlb) f (reference_message ?tlb) (p + walk_step L msg) rest"
    by simp
  from Cons.IH [OF this, of a'] obtain r where
    "message_loop L f (p + walk_step L msg) ?tlb a' = Inr r" by blast
  with pf m st pr show ?case by simp
qed

lemma uncommit_buffer_buffers:
  "uncommit_buffer m b u = (r, m1, u1) \<Longrightarrow> buffers m1 = buffers m"
  by (auto simp: uncommit_buffer_def os_call_def split: list.splits prod.splits bool.splits)

lemma flush_leased_returns:
  assumes "distinct bs"
    and "\<forall>b \<in> set bs. owner (buffers m b) = None \<longrightarrow> (\<forall>s. \<exists>r. f (buffers m b) s = Inr r)"
  shows "\<exists>r. flush_leased f bs tu unc m s = Inr r"
  using assms
proof (induction bs arbitrary: tu unc m s)
  case Nil
  then show ?case by simp
next
  case (Cons b bs)
  from Cons.prems have d: "distinct bs" and nb: "b \<notin> set bs" by simp_all
  show ?case
  proof (cases "owner (buffers m b)")
    case (Some t)
    let ?m = "m\<lparr>leased_list := bs, not_finished := b # not_finished m\<rparr>"
    from Cons.prems have "\<forall>c \<in> set bs. owner (buffers ?m c) = None
            \<longrightarrow> (\<forall>s. \<exists>r. f (buffers ?m c) s = Inr r)" by simp
    from Cons.IH [OF d this] Some show ?thesis by simp
  next
    case None
    with Cons.prems obtain tlb s1 where fr: "f (buffers m b) s = Inr (tlb, s1)"
      by (metis list.set_intros(1) prod.collapse)
    have keep: "\<forall>c \<in> set bs. owner (buffers m' c) = None
            \<longrightarrow> (\<forall>s. \<exists>r. f (buffers m' c) s = Inr r)"
      if "\<forall>c \<in> set bs. buffers m' c = buffers m c" for m'
      using that Cons.prems(2) by simp
    show ?thesis
    proof (cases "tu = 0")
      case True
      let ?m = "m\<lparr>leased_list := bs, buffers := (buffers m)(b := tlb),
                       bytes_used := uintx_sub (bytes_used m) (buffer_size m),
                       free_list := b # free_list m\<rparr>"
      have "\<forall>c \<in> set bs. buffers ?m c = buffers m c" using nb by auto
      from Cons.IH [OF d keep [OF this]] None fr True show ?thesis by simp
    next
      case False
      let ?m0 = "m\<lparr>leased_list := bs, buffers := (buffers m)(b := tlb),
                             bytes_used := uintx_sub (bytes_used m) (buffer_size m)\<rparr>"
      obtain r m1 u1 where u: "uncommit_buffer ?m0 b unc = (r, m1, u1)"
        by (metis prod.collapse)
      from uncommit_buffer_buffers [OF u] have b1: "buffers m1 = (buffers m)(b := tlb)" by simp
      show ?thesis
      proof (cases r)
        case True
        have "\<forall>c \<in> set bs. buffers m1 c = buffers m c" using nb b1 by auto
        from Cons.IH [OF d keep [OF this]] None fr False u True show ?thesis by simp
      next
        case False
        let ?m = "m1\<lparr>free_list := b # free_list m1\<rparr>"
        have "\<forall>c \<in> set bs. buffers ?m c = buffers m c" using nb b1 by auto
        from Cons.IH [OF d keep [OF this]] None fr \<open>tu \<noteq> 0\<close> u False show ?thesis by simp
      qed
    qed
  qed
qed

lemma flush_buffers_returns:
  assumes "buffer_size m \<noteq> 0" and "distinct (leased_list m)"
    and "\<forall>b \<in> set (leased_list m). owner (buffers m b) = None
           \<longrightarrow> (\<forall>s. \<exists>r. f (buffers m b) s = Inr r)"
  shows "\<exists>r. flush_buffers f goal m s = Inr r"
proof -
  let ?g = "goal div buffer_size m"
  let ?tu = "(if ?g < uintx_of_jint (num_committed m)
                           then uintx_of_jint (num_committed m) - ?g else 0)"
  from flush_leased_returns [OF assms(2,3), of ?tu "[]" s]
  obtain r where "flush_leased f (leased_list m) ?tu [] m s = Inr r" by blast
  with assms(1) show ?thesis
    by (cases r) (simp add: flush_buffers_def Let_def split: prod.splits)
qed

lemma flushable_flush:
  assumes "flushable L (manager v) recs"
  shows "\<exists>v'. NativeMemory_flush L v = Inr v'"
proof -
  have w: "\<forall>s. \<exists>r. TLBFlushClosure_tlb_do L (buffers (manager v) b) s = Inr r"
    if "b \<in> set (leased_list (manager v))" and "owner (buffers (manager v) b) = None" for b
  proof -
    from assms that
    have "walkable L (messages (buffers (manager v) b)) (pos (buffers (manager v) b))
               (reference_message (buffers (manager v) b)) 0 (recs b)"
      unfolding flushable_def by blast
    from message_loop_walkable [OF this] show ?thesis
      unfolding TLBFlushClosure_tlb_do_def by blast
  qed
  from assms have "buffer_size (manager v) \<noteq> 0" "distinct (leased_list (manager v))"
    by (simp_all add: flushable_def)
  from flush_buffers_returns [OF this, of "TLBFlushClosure_tlb_do L"] w
  obtain r where "flush_buffers (TLBFlushClosure_tlb_do L)
      (uintx_add (previous_usage (memory v)) (bytes_used (manager v)) div 2) (manager v) (agent v) = Inr r"
    by blast
  then show ?thesis by (cases r) (simp add: NativeMemory_flush_def Let_def)
qed

text \<open>
  No buffer is leased exactly when the free list is empty and either the uncommitted
  list is empty too or the commit of its first buffer fails; \<open>ensure\<close> returns no buffer
  exactly when the buffer of the thread is missing or lacks the room and no buffer is
  leased.
\<close>

lemma lease_buffer_None_iff:
  "fst (lease_buffer m t) = None
     \<longleftrightarrow> free_list m = []
         \<and> (uncommitted_list m = []
              \<or> \<not> fst (os_call (m\<lparr>uncommitted_list := tl (uncommitted_list m)\<rparr>)))"
  by (auto simp: lease_buffer_def lease_def split: list.splits prod.splits bool.splits)

lemma ensure_None_iff:
  "fst (ensure m buf sz t) = None
     \<longleftrightarrow> (case buf of
            None \<Rightarrow> fst (lease_buffer m t) = None
          | Some b \<Rightarrow> \<not> sz \<le> uintx_sub (buffer_size m) (pos (buffers m b))
                       \<and> fst (lease_buffer (release m b) t) = None)"
  by (simp add: ensure_def split: option.splits)


text \<open>
  The flag set by the code: in \<open>overflowed_state\<close> the lease for thread 9 has failed.
  Buffer 0, released by thread 7, holds the message of a class load; buffer 1 belongs to
  thread 8.
\<close>

lemma c_str_strcpy: "c_str (strcpy s) = c_str s"
  by (simp add: strcpy_def c_str_def takeWhile_append1 [where x = NUL] takeWhile_append)

lemma c_str_literals:
  "c_str ''a.jar'' = ''a.jar''" "strlen ''a.jar'' = 5"
  "c_str ''b.jar'' = ''b.jar''" "strlen ''b.jar'' = 5"
  "c_str ''a'' = ''a''" "strlen ''a'' = 1"
  by (simp_all add: c_str_def strlen_def NUL_def)






section \<open>Posting class load events\<close>

lemmas vm_defs = manager_def set_manager_def set_buffer_def set_overflow_def put_message_def
  message_at_def TLB_put_def

lemma remaining_space_wrap:
  "remaining_space m b \<le> uintx_sub (buffer_size m) (pos (buffers m b))"
  by (simp add: remaining_space_def uintx_sub_def)

lemma message_at_put_same: "message_at (put_message v p msg) p = Some msg"
  by (simp add: vm_defs)

lemma message_at_put_other: "q \<noteq> p \<Longrightarrow> message_at (put_message v p msg) q = message_at v q"
  by (cases p; cases q) (auto simp add: vm_defs)

lemma put_message_fields:
  "crs_thread_locals (put_message v p msg) = crs_thread_locals v"
  "overflow (memory (put_message v p msg)) = overflow (memory v)"
  "reference_message (buffers (manager (put_message v p msg)) b) = reference_message (buffers (manager v) b)"
  "pos (buffers (manager (put_message v p msg)) b) = pos (buffers (manager v) b)"
  "owner (buffers (manager (put_message v p msg)) b) = owner (buffers (manager v) b)"
  "buffer_size (manager (put_message v p msg)) = buffer_size (manager v)"
  "free_list (manager (put_message v p msg)) = free_list (manager v)"
  "leased_list (manager (put_message v p msg)) = leased_list (manager v)"
  "uncommitted_list (manager (put_message v p msg)) = uncommitted_list (manager v)"
  by (simp_all add: vm_defs)

lemma lease_buffer_Some:
  assumes "lease_buffer m t = (Some b, m1)"
  shows "pos (buffers m1 b) = 0" and "reference_message (buffers m1 b) = None"
    and "messages (buffers m1 c) = messages (buffers m c)"
    and "buffer_size m1 = buffer_size m"
  using assms
  by (auto simp: lease_buffer_def lease_def os_call_def TLB_lease_def
           split: list.splits prod.splits bool.splits)

lemma ensure_messages:
  assumes "ensure m buf sz t = (r, m1)"
  shows "messages (buffers m1 c) = messages (buffers m c)"
  using assms
  by (auto simp: ensure_def release_def TLB_release_def lease_buffer_def lease_def os_call_def
        TLB_lease_def split: option.splits if_splits list.splits prod.splits bool.splits)

lemma alloc_ref_True:
  assumes "NativeMemory_alloc_ref L v True sz szr t = (Some msg, isr1, v1)"
  shows "isr1" and "\<not> overflow (memory v1)"
    and "crs_thread_locals v1 t = Some (fst msg)"
    and "reference_message (buffers (manager v1) (fst msg)) = Some (snd msg)"
    and "pos (buffers (manager v1) (fst msg)) = snd msg + align_up szr (align L)"
    and "messages (buffers (manager v1) c) = messages (buffers (manager v) c)"
proof -
  from assms have no: "\<not> overflow (memory v)"
    by (auto simp: NativeMemory_alloc_ref_def)
  obtain nb m1 where e: "ensure (manager v) (crs_thread_locals v t) sz t = (nb, m1)"
    by (cases "ensure (manager v) (crs_thread_locals v t) sz t")
  from assms no e obtain b where nb: "nb = Some b"
    by (cases nb) (auto simp: NativeMemory_alloc_ref_def Let_def)
  from assms no e nb show "isr1" 
    by (auto simp: NativeMemory_alloc_ref_def Let_def TLBManager_alloc_def TLB_alloc_def
        split: if_splits)
  from assms no e nb show "\<not> overflow (memory v1)"
    by (auto simp: NativeMemory_alloc_ref_def Let_def TLBManager_alloc_def TLB_alloc_def vm_defs
        split: if_splits)
  from assms no e nb show "crs_thread_locals v1 t = Some (fst msg)"
    by (auto simp: NativeMemory_alloc_ref_def Let_def TLBManager_alloc_def TLB_alloc_def vm_defs
        split: if_splits)
  from assms no e nb show "reference_message (buffers (manager v1) (fst msg)) = Some (snd msg)"
    by (auto simp: NativeMemory_alloc_ref_def Let_def TLBManager_alloc_def TLB_alloc_def vm_defs
        split: if_splits)
  from assms no e nb show "pos (buffers (manager v1) (fst msg)) = snd msg + align_up szr (align L)"
    by (auto simp: NativeMemory_alloc_ref_def Let_def TLBManager_alloc_def TLB_alloc_def vm_defs
        split: if_splits)
  from assms no e nb ensure_messages [OF e, of c]
  show "messages (buffers (manager v1) c) = messages (buffers (manager v) c)"
    by (auto simp: NativeMemory_alloc_ref_def Let_def TLBManager_alloc_def TLB_alloc_def vm_defs
        split: if_splits)
qed

lemma alloc_ref_new_buffer:
  assumes "NativeMemory_alloc_ref L v isr sz szr t = (Some msg, isr1, v1)"
    and "crs_thread_locals v t \<noteq> Some (fst msg)"
  shows "isr1"
  using assms
  by (auto simp: NativeMemory_alloc_ref_def Let_def TLBManager_alloc_def TLB_alloc_def
        split: if_splits prod.splits option.splits)

lemma alloc_ref_fits:
  assumes "crs_thread_locals v t = Some b" and "\<not> overflow (memory v)"
    and "sz \<le> remaining_space (manager v) b"
  shows "\<exists>v1. NativeMemory_alloc_ref L v False sz szr t = (Some (b, pos (buffers (manager v) b)), False, v1)
      \<and> \<not> overflow (memory v1) \<and> crs_thread_locals v1 = crs_thread_locals v
      \<and> reference_message (buffers (manager v1) b) = reference_message (buffers (manager v) b)
      \<and> pos (buffers (manager v1) b) = pos (buffers (manager v) b) + align_up sz (align L)
      \<and> (\<forall>c. messages (buffers (manager v1) c) = messages (buffers (manager v) c))
      \<and> buffer_size (manager v1) = buffer_size (manager v)"
  using assms remaining_space_wrap [of "manager v" b]
  by (simp add: NativeMemory_alloc_ref_def ensure_def Let_def TLBManager_alloc_def TLB_alloc_def vm_defs)


lemma post_new_source:
  assumes s: "c_str s \<noteq> []" and ps: "previous_source v t \<noteq> Some (c_str s)"
    and p: "CrsClassLoadMessage_post L v k h (Some s) t = Inr (Some msg, v')"
  shows "message_at v' msg = Some (full_record L k h s)"
    and "crs_thread_locals v' t = Some (fst msg)"
    and "reference_message (buffers (manager v') (fst msg)) = Some (snd msg)"
    and "pos (buffers (manager v') (fst msg)) = snd msg + align_up (offset_of_source L + strlen s + 1) (align L)"
    and "\<not> overflow (memory v')"
proof -
  let ?szr = "offset_of_source L + (strlen s + 1)"
  from s ps p obtain isr1 v1 where
    a: "NativeMemory_alloc_ref L v True ?szr ?szr t = (Some msg, isr1, v1)"
    and v': "v' = put_message v1 msg (CrsClassLoadMessage_new (if isr1 then ?szr else ?szr) k h (Some s)
                 (\<not> isr1 \<and> previous_source v t \<noteq> None))"
    by (auto simp: CrsClassLoadMessage_post_def previous_source_def Let_def
          split: option.splits sum.splits prod.splits if_splits)
  note f = alloc_ref_True [OF a]
  from f(1) v' have v'': "v' = put_message v1 msg (full_record L k h s)"
    by (simp add: full_record_def)
  show "message_at v' msg = Some (full_record L k h s)"
    by (simp add: v'' message_at_put_same)
  show "crs_thread_locals v' t = Some (fst msg)"
    by (simp add: v'' put_message_fields f)
  show "reference_message (buffers (manager v') (fst msg)) = Some (snd msg)"
    by (simp add: v'' put_message_fields f)
  show "pos (buffers (manager v') (fst msg)) = snd msg + align_up (offset_of_source L + strlen s + 1) (align L)"
    by (simp add: v'' put_message_fields f)
  show "\<not> overflow (memory v')"
    by (simp add: v'' put_message_fields f)
qed


lemma full_record_source:
  "msg_body (full_record L k h s) = ClassLoad c \<Longrightarrow> cl_has_source c \<and> c_str (cl_source c) = c_str s"
  by (auto simp: full_record_def CrsClassLoadMessage_new_def CrsMessage_new_def c_str_strcpy)

lemma class_load_at_full:
  "message_at v p = Some (full_record L k h s) \<Longrightarrow>
   \<exists>c. class_load_at v p = Inr (full_record L k h s, c) \<and> cl_has_source c \<and> c_str (cl_source c) = c_str s"
  by (simp add: class_load_at_def full_record_def CrsClassLoadMessage_new_def CrsMessage_new_def
      c_str_strcpy)

lemma previous_source_full:
  assumes "crs_thread_locals v t = Some b" and "reference_message (buffers (manager v) b) = Some r"
    and "message_at v (b, r) = Some (full_record L k h s)"
  shows "previous_source v t = Some (c_str s)"
  using assms class_load_at_full [OF assms(3)]
  by (auto simp: previous_source_def NativeMemory_reference_message_def)

lemma post_same_source:
  assumes b: "crs_thread_locals v t = Some b" and no: "\<not> overflow (memory v)"
    and r: "reference_message (buffers (manager v) b) = Some r"
    and m: "message_at v (b, r) = Some (full_record L k0 h0 s0)"
    and eq: "c_str s = c_str s0" and ne: "c_str s \<noteq> []"
    and fit: "sizeof_CrsClassLoadMessage L \<le> remaining_space (manager v) b"
    and pr: "pos (buffers (manager v) b) \<noteq> r"
  shows "\<exists>v'. CrsClassLoadMessage_post L v k h (Some s) t
               = Inr (Some (b, pos (buffers (manager v) b)), v')
      \<and> message_at v' (b, pos (buffers (manager v) b)) = Some (reference_record L k h s)
      \<and> message_at v' (b, r) = message_at v (b, r)
      \<and> reference_message (buffers (manager v') b) = Some r
      \<and> crs_thread_locals v' t = Some b \<and> \<not> overflow (memory v')
      \<and> pos (buffers (manager v') b)
           = pos (buffers (manager v) b) + align_up (sizeof_CrsClassLoadMessage L) (align L)
      \<and> buffer_size (manager v') = buffer_size (manager v)"
proof -
  let ?p = "(b, pos (buffers (manager v) b))"
  let ?szr = "offset_of_source L + (strlen s + 1)"
  from alloc_ref_fits [OF b no fit, of L ?szr] obtain v1 where
    a: "NativeMemory_alloc_ref L v False (sizeof_CrsClassLoadMessage L) ?szr t = (Some ?p, False, v1)"
    and f: "\<not> overflow (memory v1)" "crs_thread_locals v1 = crs_thread_locals v"
      "reference_message (buffers (manager v1) b) = reference_message (buffers (manager v) b)"
      "pos (buffers (manager v1) b)
         = pos (buffers (manager v) b) + align_up (sizeof_CrsClassLoadMessage L) (align L)"
      "\<forall>c. messages (buffers (manager v1) c) = messages (buffers (manager v) c)"
      "buffer_size (manager v1) = buffer_size (manager v)"
    by blast
  from class_load_at_full [OF m] obtain c where
    c: "class_load_at v (b, r) = Inr (full_record L k0 h0 s0, c)" "cl_has_source c"
       "c_str (cl_source c) = c_str s0" by blast
  let ?v' = "put_message v1 ?p (reference_record L k h s)"
  have post: "CrsClassLoadMessage_post L v k h (Some s) t = Inr (Some ?p, ?v')"
    using b r c eq ne a
    by (simp add: CrsClassLoadMessage_post_def NativeMemory_reference_message_def Let_def
        reference_record_def)
  have "message_at v1 (b, r) = message_at v (b, r)"
    using f(5) by (simp add: message_at_def)
  with pr have "message_at ?v' (b, r) = message_at v (b, r)"
    by (simp add: message_at_put_other)
  with post f b r show ?thesis
    by (simp add: message_at_put_same put_message_fields)
qed

lemma post_empty_source:
  "c_str e = [] \<Longrightarrow>
   CrsClassLoadMessage_post L v k h (Some e) t = CrsClassLoadMessage_post L v k h None t"
  by (simp add: CrsClassLoadMessage_post_def cong: sum.case_cong)

lemma post_returns:
  assumes "crs_thread_locals v t = Some b" and "reference_message (buffers (manager v) b) = Some r"
    and "message_at v (b, r) = Some (full_record L k0 h0 s0)"
  shows "\<exists>res. CrsClassLoadMessage_post L v k h src t = Inr res"
  using assms class_load_at_full [OF assms(3)]
  by (auto simp: CrsClassLoadMessage_post_def NativeMemory_reference_message_def Let_def
        split: prod.splits option.splits)

lemma post_fits:
  assumes "crs_thread_locals v t = Some b" and "\<not> overflow (memory v)"
    and "c_str s \<noteq> []" and "previous_source v t \<noteq> Some (c_str s)"
    and "offset_of_source L + strlen s + 1 \<le> remaining_space (manager v) b"
    and "CrsClassLoadMessage_post L v k h (Some s) t = Inr (res, v')"
  shows "res = Some (b, pos (buffers (manager v) b))"
  using assms remaining_space_wrap [of "manager v" b]
  by (auto simp: CrsClassLoadMessage_post_def previous_source_def Let_def
        NativeMemory_alloc_ref_def ensure_def TLBManager_alloc_def TLB_alloc_def
        split: option.splits sum.splits prod.splits if_splits)

lemma reference_record_size:
  "msg_size (reference_record L k h s) = sizeof_CrsClassLoadMessage L mod 65536"
  by (simp add: reference_record_def CrsClassLoadMessage_new_def CrsMessage_new_def)

lemma full_record_size_field:
  "msg_size (full_record L k h s) = (offset_of_source L + strlen s + 1) mod 65536"
  by (simp add: full_record_def CrsClassLoadMessage_new_def CrsMessage_new_def)

text \<open>
  C5, as amended. Let the first of two class load events of a thread have a non-empty
  source that is not the source of the message the back reference of the thread's buffer
  points to, and let its message be written, at \<open>p1\<close>. Then this message is the full
  form with the source, and the back reference of its buffer points to it. A second
  event with the same source for which the buffer has room is written right behind it
  into the same buffer as the reference form, whose size is that of the class
  \<open>CrsClassLoadMessage\<close> whatever the source; it is smaller than the full form exactly
  when the offset of the source plus the length of the source plus one exceeds that size
  (both below \<open>2^16\<close>). The
  back reference still points to the first message. A third event with another
  non-empty source returns; its message, if one is written, is the full form and the
  back reference of its buffer points to it; it is written into the same buffer when
  that has room. A source whose first byte is the terminator is posted as no source.
\<close>

theorem class_load_dedup:
  assumes al: "0 < align L"
    and s1: "c_str s1 \<noteq> []" and ps: "previous_source v t \<noteq> Some (c_str s1)"
    and p1: "CrsClassLoadMessage_post L v k1 h1 (Some s1) t = Inr (Some p1, v1)"
    and s2: "c_str s2 = c_str s1"
    and fit: "sizeof_CrsClassLoadMessage L \<le> remaining_space (manager v1) (fst p1)"
    and s3: "c_str s3 \<noteq> []" "c_str s3 \<noteq> c_str s1"
  shows "message_at v1 p1 = Some (full_record L k1 h1 s1)
    \<and> reference_message (buffers (manager v1) (fst p1)) = Some (snd p1)
    \<and> (\<exists>p2 v2. CrsClassLoadMessage_post L v1 k2 h2 (Some s2) t = Inr (Some p2, v2)
          \<and> p2 = (fst p1, pos (buffers (manager v1) (fst p1)))
          \<and> message_at v2 p2 = Some (reference_record L k2 h2 s2)
          \<and> msg_size (reference_record L k2 h2 s2) = sizeof_CrsClassLoadMessage L mod 65536
          \<and> pos (buffers (manager v2) (fst p1))
               = snd p2 + align_up (sizeof_CrsClassLoadMessage L) (align L)
          \<and> (sizeof_CrsClassLoadMessage L < 65536 \<and> offset_of_source L + strlen s1 + 1 < 65536
               \<longrightarrow> (msg_size (reference_record L k2 h2 s2) < msg_size (full_record L k1 h1 s1))
                     = (sizeof_CrsClassLoadMessage L < offset_of_source L + strlen s1 + 1))
          \<and> message_at v2 p1 = Some (full_record L k1 h1 s1)
          \<and> reference_message (buffers (manager v2) (fst p1)) = Some (snd p1)
          \<and> (\<exists>r3 v3. CrsClassLoadMessage_post L v2 k3 h3 (Some s3) t = Inr (r3, v3)
                \<and> (\<forall>p3. r3 = Some p3 \<longrightarrow>
                       message_at v3 p3 = Some (full_record L k3 h3 s3)
                     \<and> crs_thread_locals v3 t = Some (fst p3)
                     \<and> reference_message (buffers (manager v3) (fst p3)) = Some (snd p3))
                \<and> (offset_of_source L + strlen s3 + 1 \<le> remaining_space (manager v2) (fst p1)
                     \<longrightarrow> r3 = Some (fst p1, pos (buffers (manager v2) (fst p1))))))
    \<and> (\<forall>e. c_str e = [] \<longrightarrow>
          CrsClassLoadMessage_post L v k1 h1 (Some e) t = CrsClassLoadMessage_post L v k1 h1 None t)"
proof -
  obtain b r where p1e: "p1 = (b, r)" by (cases p1)
  note f1 = post_new_source [OF s1 ps p1]
  from f1 p1e have m1: "message_at v1 (b, r) = Some (full_record L k1 h1 s1)"
    and t1: "crs_thread_locals v1 t = Some b"
    and r1: "reference_message (buffers (manager v1) b) = Some r"
    and no1: "\<not> overflow (memory v1)"
    and pos1: "pos (buffers (manager v1) b) = r + align_up (offset_of_source L + strlen s1 + 1) (align L)"
    by simp_all
  have "0 < align_up (offset_of_source L + strlen s1 + 1) (align L)"
    using align_up_ge [OF al, of "offset_of_source L + strlen s1 + 1"] by simp
  with pos1 have pr: "pos (buffers (manager v1) b) \<noteq> r" by simp
  from s1 s2 have ne2: "c_str s2 \<noteq> []" by simp
  from fit p1e have fit': "sizeof_CrsClassLoadMessage L \<le> remaining_space (manager v1) b" by simp
  from post_same_source [OF t1 no1 r1 m1 s2 ne2 fit' pr, of k2 h2] obtain v2 where
    p2: "CrsClassLoadMessage_post L v1 k2 h2 (Some s2) t = Inr (Some (b, pos (buffers (manager v1) b)), v2)"
    and m2: "message_at v2 (b, pos (buffers (manager v1) b)) = Some (reference_record L k2 h2 s2)"
    and m21: "message_at v2 (b, r) = message_at v1 (b, r)"
    and r2: "reference_message (buffers (manager v2) b) = Some r"
    and t2: "crs_thread_locals v2 t = Some b" and no2: "\<not> overflow (memory v2)"
    and pos2: "pos (buffers (manager v2) b)
           = pos (buffers (manager v1) b) + align_up (sizeof_CrsClassLoadMessage L) (align L)"
    by blast
  from m21 m1 have m21': "message_at v2 (b, r) = Some (full_record L k1 h1 s1)" by simp
  have sm: "(msg_size (reference_record L k2 h2 s2) < msg_size (full_record L k1 h1 s1))
              = (sizeof_CrsClassLoadMessage L < offset_of_source L + strlen s1 + 1)"
    if "sizeof_CrsClassLoadMessage L < 65536" and "offset_of_source L + strlen s1 + 1 < 65536"
    using that by (simp add: reference_record_size full_record_size_field)
  from previous_source_full [OF t2 r2 m21'] s3
  have ps3: "previous_source v2 t \<noteq> Some (c_str s3)" by simp
  from post_returns [OF t2 r2 m21', of k3 h3 "Some s3"] obtain r3 v3 where
    p3: "CrsClassLoadMessage_post L v2 k3 h3 (Some s3) t = Inr (r3, v3)" by (metis prod.collapse)
  have full3: "message_at v3 p3 = Some (full_record L k3 h3 s3)
                     \<and> crs_thread_locals v3 t = Some (fst p3)
                     \<and> reference_message (buffers (manager v3) (fst p3)) = Some (snd p3)"
    if "r3 = Some p3" for p3
    using post_new_source(1,2,3) [OF s3(1) ps3, of L k3 h3 p3 v3] p3 that by simp
  have fit3: "r3 = Some (b, pos (buffers (manager v2) b))"
    if "offset_of_source L + strlen s3 + 1 \<le> remaining_space (manager v2) b"
    using post_fits [OF t2 no2 s3(1) ps3 that p3] .
  have e: "CrsClassLoadMessage_post L v k1 h1 (Some e) t = CrsClassLoadMessage_post L v k1 h1 None t"
    if "c_str e = []" for e using that by (rule post_empty_source)
  have second: "\<exists>p2 v2. CrsClassLoadMessage_post L v1 k2 h2 (Some s2) t = Inr (Some p2, v2)
          \<and> p2 = (fst p1, pos (buffers (manager v1) (fst p1)))
          \<and> message_at v2 p2 = Some (reference_record L k2 h2 s2)
          \<and> msg_size (reference_record L k2 h2 s2) = sizeof_CrsClassLoadMessage L mod 65536
          \<and> pos (buffers (manager v2) (fst p1))
               = snd p2 + align_up (sizeof_CrsClassLoadMessage L) (align L)
          \<and> (sizeof_CrsClassLoadMessage L < 65536 \<and> offset_of_source L + strlen s1 + 1 < 65536
               \<longrightarrow> (msg_size (reference_record L k2 h2 s2) < msg_size (full_record L k1 h1 s1))
                     = (sizeof_CrsClassLoadMessage L < offset_of_source L + strlen s1 + 1))
          \<and> message_at v2 p1 = Some (full_record L k1 h1 s1)
          \<and> reference_message (buffers (manager v2) (fst p1)) = Some (snd p1)
          \<and> (\<exists>r3 v3. CrsClassLoadMessage_post L v2 k3 h3 (Some s3) t = Inr (r3, v3)
                \<and> (\<forall>p3. r3 = Some p3 \<longrightarrow>
                       message_at v3 p3 = Some (full_record L k3 h3 s3)
                     \<and> crs_thread_locals v3 t = Some (fst p3)
                     \<and> reference_message (buffers (manager v3) (fst p3)) = Some (snd p3))
                \<and> (offset_of_source L + strlen s3 + 1 \<le> remaining_space (manager v2) (fst p1)
                     \<longrightarrow> r3 = Some (fst p1, pos (buffers (manager v2) (fst p1)))))"
    apply (rule exI [of _ "(b, pos (buffers (manager v1) b))"])
    apply (rule exI [of _ v2])
    using p2 m2 pos2 sm m21' r2 p3 full3 fit3 p1e reference_record_size [of L k2 h2 s2]
    by (auto simp del: split_paired_All split_paired_Ex)
  from f1(1,3) second e show ?thesis by blast
qed




theorem class_load_dedup_witness:
  "message_at (after_class_load lp64 (vm_of (small_pool 8192)) (Some ''a.jar'') 7) (0, 0)
      = Some (full_record lp64 some_klass None ''a.jar'')
   \<and> reference_message
        (buffers (manager (after_class_load lp64 (vm_of (small_pool 8192)) (Some ''a.jar'') 7)) 0)
      = Some 0
   \<and> message_at
        (after_class_load lp64 (after_class_load lp64 (vm_of (small_pool 8192)) (Some ''a.jar'') 7)
           (Some ''a.jar'') 7) (0, 72)
      = Some (reference_record lp64 some_klass None ''a.jar'')
   \<and> msg_size (reference_record lp64 some_klass None ''a.jar'') = 64
   \<and> msg_size (reference_record lp64 some_klass None ''a.jar'')
       < msg_size (full_record lp64 some_klass None ''a.jar'')
   \<and> reference_message
        (buffers (manager
           (after_class_load lp64 (after_class_load lp64 (vm_of (small_pool 8192)) (Some ''a.jar'') 7)
              (Some ''a.jar'') 7)) 0)
      = Some 0
   \<and> message_at
        (after_class_load lp64
           (after_class_load lp64 (after_class_load lp64 (vm_of (small_pool 8192)) (Some ''a.jar'') 7)
              (Some ''a.jar'') 7)
           (Some ''b.jar'') 7) (0, 136)
      = Some (full_record lp64 some_klass None ''b.jar'')
   \<and> reference_message
        (buffers (manager
           (after_class_load lp64
              (after_class_load lp64 (after_class_load lp64 (vm_of (small_pool 8192)) (Some ''a.jar'') 7)
                 (Some ''a.jar'') 7)
              (Some ''b.jar'') 7)) 0)
      = Some 136
   \<and> CrsClassLoadMessage_post lp64 (vm_of (small_pool 8192)) some_klass None (Some []) 7
       = CrsClassLoadMessage_post lp64 (vm_of (small_pool 8192)) some_klass None None 7"
proof -
  let ?v = "vm_of (small_pool 8192)"
  let ?v1 = "after_class_load lp64 ?v (Some ''a.jar'') 7"
  let ?v2 = "after_class_load lp64 ?v1 (Some ''a.jar'') 7"
  let ?v3 = "after_class_load lp64 ?v2 (Some ''b.jar'') 7"
  have al: "0 < align lp64" by (simp add: lp64_def)
  have s1: "c_str ''a.jar'' \<noteq> []" by (simp add: c_str_literals)
  have ps: "previous_source ?v 7 \<noteq> Some (c_str ''a.jar'')"
    by (simp add: previous_source_def NativeMemory_reference_message_def vm_of_def)
  have p1: "CrsClassLoadMessage_post lp64 ?v some_klass None (Some ''a.jar'') 7 = Inr (Some (0, 0), ?v1)"
    by (simp add: post_eval c_str_literals lp64_def align_up_def)
  have fit: "sizeof_CrsClassLoadMessage lp64 \<le> remaining_space (manager ?v1) (fst (0::nat, 0::nat))"
    by (simp add: post_eval c_str_literals lp64_def align_up_def remaining_space_def)
  have s3: "c_str ''b.jar'' \<noteq> []" "c_str ''b.jar'' \<noteq> c_str ''a.jar''"
    by (simp_all add: c_str_literals)
  have p2: "CrsClassLoadMessage_post lp64 ?v1 some_klass None (Some ''a.jar'') 7
              = Inr (Some (0, 72), ?v2)"
    by (simp add: post_eval c_str_literals lp64_def align_up_def c_str_strcpy)
  have p3: "CrsClassLoadMessage_post lp64 ?v2 some_klass None (Some ''b.jar'') 7
              = Inr (Some (0, 136), ?v3)"
    by (simp add: post_eval c_str_literals lp64_def align_up_def c_str_strcpy)
  have sz: "sizeof_CrsClassLoadMessage lp64 < offset_of_source lp64 + strlen ''a.jar'' + 1"
      "offset_of_source lp64 + strlen ''a.jar'' + 1 < 65536"
      "sizeof_CrsClassLoadMessage lp64 mod 65536 = 64"
      "sizeof_CrsClassLoadMessage lp64 < 65536"
    by (simp_all add: lp64_def c_str_literals)
  have e: "c_str [] = []" by (simp add: c_str_def)
  note T = class_load_dedup [OF al s1 ps p1 refl fit s3, of some_klass None some_klass None]
  from T have m1: "message_at ?v1 (0, 0) = Some (full_record lp64 some_klass None ''a.jar'')"
    and r1: "reference_message (buffers (manager ?v1) 0) = Some 0" by simp_all
  from T e have emp: "CrsClassLoadMessage_post lp64 ?v some_klass None (Some []) 7
                = CrsClassLoadMessage_post lp64 ?v some_klass None None 7" by blast
  from T [THEN conjunct2, THEN conjunct2, THEN conjunct1] p2 p3 sz
  have second: "message_at ?v2 (0, 72) = Some (reference_record lp64 some_klass None ''a.jar'')"
    "msg_size (reference_record lp64 some_klass None ''a.jar'') = 64"
    "msg_size (reference_record lp64 some_klass None ''a.jar'')
       < msg_size (full_record lp64 some_klass None ''a.jar'')"
    "reference_message (buffers (manager ?v2) 0) = Some 0"
    "message_at ?v3 (0, 136) = Some (full_record lp64 some_klass None ''b.jar'')"
    "reference_message (buffers (manager ?v3) 0) = Some 136"
    by simp_all
  from m1 r1 second emp show ?thesis by simp
qed

text \<open>
  C5 as stated has the second event encoded as the smaller one of the two forms, and the
  first of any two events with the same source as the full form. For the source
  \<open>a\<close> on LP64 the full form has the size 62 and the reference form the size 64, and
  both take 64 bytes of the buffer; and of three events with this source the second and
  the third are both the reference form.
\<close>

theorem short_source_not_smaller_counterexample:
  "message_at (after_class_load lp64 (vm_of (small_pool 8192)) (Some ''a'') 7) (0, 0)
      = Some (full_record lp64 some_klass None ''a'')
   \<and> message_at
        (after_class_load lp64 (after_class_load lp64 (vm_of (small_pool 8192)) (Some ''a'') 7)
           (Some ''a'') 7) (0, 64)
      = Some (reference_record lp64 some_klass None ''a'')
   \<and> msg_size (full_record lp64 some_klass None ''a'') = 62
   \<and> msg_size (reference_record lp64 some_klass None ''a'') = 64
   \<and> pos (buffers (manager (after_class_load lp64 (vm_of (small_pool 8192)) (Some ''a'') 7)) 0) = 64
   \<and> pos (buffers (manager
        (after_class_load lp64 (after_class_load lp64 (vm_of (small_pool 8192)) (Some ''a'') 7)
           (Some ''a'') 7)) 0) = 128
   \<and> message_at
        (after_class_load lp64
           (after_class_load lp64 (after_class_load lp64 (vm_of (small_pool 8192)) (Some ''a'') 7)
              (Some ''a'') 7)
           (Some ''a'') 7) (0, 128)
      = Some (reference_record lp64 some_klass None ''a'')"
  by (simp add: post_eval c_str_literals lp64_def align_up_def c_str_strcpy full_record_def
      reference_record_def)





section \<open>Blowing a class load message\<close>

lemmas blow_eval = CrsClassLoadMessage_blow_def CrsClassLoadMessageBlown_post_def
  CrsClassLoadMessageBlown_new_def blown_source_size_def blown_source_def memcpy_def
  NativeMemory_alloc_def as_C_string_def int_of_uintx_def uintx_add_def after_blow_def
  CrsMessage_process_def CrsClassLoadMessageBlown_process_def CrsClassLoadMessage_process_def
  switch_type_def strcpy_def

lemmas three_posts_eval = three_posts_def after_post_def post_eval c_str_literals lp64_def
  align_up_def c_str_strcpy uintx_bits_def klass_B_def klass_C_def some_klass_def

lemma three_posts_state:
  "message_at three_posts (0, 0) = Some (full_record lp64 some_klass None ''a.jar'')"
  "message_at three_posts (0, 72) = Some (reference_record lp64 klass_B None ''a.jar'')"
  "message_at three_posts (0, 136) = Some (full_record lp64 klass_C None ''b.jar'')"
  "reference_message (buffers (manager three_posts) 0) = Some 136"
  "pos (buffers (manager three_posts) 0) = 208"
  "owner (buffers (manager three_posts) 0) = Some 7"
  by (simp_all add: three_posts_eval full_record_def reference_record_def)

lemma three_posts_delivered:
  "delivered lp64 (buffers (manager three_posts) 0)
     = Inr [NotifyClassLoad ''A'' None 1 1 (Some ''a.jar''),
            NotifyClassLoad ''B'' None 2 1 (Some ''a.jar''),
            NotifyClassLoad ''C'' None 3 1 (Some ''b.jar'')]"
  by (simp add: delivered_def TLBFlushClosure_tlb_do_def walk_step_def CrsMessage_process_def
      CrsClassLoadMessage_process_def three_posts_eval)

text \<open>
  C1. Thread 7 has loaded the classes A and B from a.jar and then the class C from
  b.jar: the message of B, at offset 72, is a reference, and the back reference of the
  buffer points to the message of C, at offset 136. The flush of this buffer delivers B
  with the source a.jar. When the message of B is blown instead, as at the eviction of
  the class, the blown message is appended at offset 0 of a buffer leased to the VM
  thread, the message at offset 72 becomes a deleted one of the same size, and the
  flush of the two buffers delivers B with the source b.jar.
\<close>

theorem blow_reference_copies_later_source:
  "message_at three_posts (0, 72) = Some (reference_record lp64 klass_B None ''a.jar'')
   \<and> reference_message (buffers (manager three_posts) 0) = Some 136
   \<and> delivered lp64 (buffers (manager three_posts) 0)
       = Inr [NotifyClassLoad ''A'' None 1 1 (Some ''a.jar''),
              NotifyClassLoad ''B'' None 2 1 (Some ''a.jar''),
              NotifyClassLoad ''C'' None 3 1 (Some ''b.jar'')]
   \<and> CrsClassLoadMessage_blow lp64 three_posts 0 72 vm_thread
       = Inr (Some (1, 0), after_blow lp64 three_posts 0 72 vm_thread)
   \<and> message_at (after_blow lp64 three_posts 0 72 vm_thread) (0, 72)
       = Some (switch_type (reference_record lp64 klass_B None ''a.jar'') CRS_MESSAGE_DELETED)
   \<and> pos (buffers (manager (after_blow lp64 three_posts 0 72 vm_thread)) 1) = 64
   \<and> delivered lp64 (buffers (manager (after_blow lp64 three_posts 0 72 vm_thread)) 1)
       = Inr [NotifyClassLoad ''B'' None 2 1 (Some ''b.jar'')]
   \<and> delivered lp64 (buffers (manager (after_blow lp64 three_posts 0 72 vm_thread)) 0)
       = Inr [NotifyClassLoad ''A'' None 1 1 (Some ''a.jar''),
              NotifyClassLoad ''C'' None 3 1 (Some ''b.jar'')]"
proof (intro conjI)
  show "message_at three_posts (0, 72) = Some (reference_record lp64 klass_B None ''a.jar'')"
    by (rule three_posts_state)
  show "reference_message (buffers (manager three_posts) 0) = Some 136"
    by (rule three_posts_state)
  show "delivered lp64 (buffers (manager three_posts) 0)
       = Inr [NotifyClassLoad ''A'' None 1 1 (Some ''a.jar''),
              NotifyClassLoad ''B'' None 2 1 (Some ''a.jar''),
              NotifyClassLoad ''C'' None 3 1 (Some ''b.jar'')]"
    by (rule three_posts_delivered)
  show "CrsClassLoadMessage_blow lp64 three_posts 0 72 vm_thread
       = Inr (Some (1, 0), after_blow lp64 three_posts 0 72 vm_thread)"
    by (simp add: blow_eval three_posts_eval vm_thread_def c_str_def NUL_def strlen_def)
  have "message_at (after_blow lp64 three_posts 0 72 vm_thread) (0, 72)
       = Some \<lparr>msg_type = CRS_MESSAGE_DELETED, msg_size = 64,
               msg_body = ClassLoad
                 \<lparr>cl_klass = klass_B, cl_loaderId = 1, cl_klass_id = 2, cl_has_hash = False,
                   cl_has_source = False, cl_has_same_source = True, cl_hash = [],
                   cl_source = []\<rparr>\<rparr>"
    by (simp add: blow_eval three_posts_eval vm_thread_def c_str_def NUL_def strlen_def)
  moreover have "switch_type (reference_record lp64 klass_B None ''a.jar'') CRS_MESSAGE_DELETED
       = \<lparr>msg_type = CRS_MESSAGE_DELETED, msg_size = 64,
               msg_body = ClassLoad
                 \<lparr>cl_klass = klass_B, cl_loaderId = 1, cl_klass_id = 2, cl_has_hash = False,
                   cl_has_source = False, cl_has_same_source = True, cl_hash = [],
                   cl_source = []\<rparr>\<rparr>"
    by (simp add: switch_type_def reference_record_def CrsClassLoadMessage_new_def
        CrsMessage_new_def lp64_def klass_B_def)
  ultimately show "message_at (after_blow lp64 three_posts 0 72 vm_thread) (0, 72)
       = Some (switch_type (reference_record lp64 klass_B None ''a.jar'') CRS_MESSAGE_DELETED)"
    by (simp only:)
  show "pos (buffers (manager (after_blow lp64 three_posts 0 72 vm_thread)) 1) = 64"
    by (simp add: blow_eval three_posts_eval vm_thread_def c_str_def NUL_def strlen_def)
  show "delivered lp64 (buffers (manager (after_blow lp64 three_posts 0 72 vm_thread)) 1)
       = Inr [NotifyClassLoad ''B'' None 2 1 (Some ''b.jar'')]"
    by (simp add: delivered_def TLBFlushClosure_tlb_do_def walk_step_def blow_eval
        three_posts_eval vm_thread_def c_str_def NUL_def strlen_def)
  show "delivered lp64 (buffers (manager (after_blow lp64 three_posts 0 72 vm_thread)) 0)
       = Inr [NotifyClassLoad ''A'' None 1 1 (Some ''a.jar''),
              NotifyClassLoad ''C'' None 3 1 (Some ''b.jar'')]"
    by (simp add: delivered_def TLBFlushClosure_tlb_do_def walk_step_def blow_eval
        three_posts_eval vm_thread_def c_str_def NUL_def strlen_def)
qed

section \<open>The forced flush\<close>

lemma process_owner:
  "CrsMessage_process tlb p msg a = Inr (tlb', a') \<Longrightarrow> owner tlb' = owner tlb"
  by (auto simp: CrsMessage_process_def CrsClassLoadMessage_process_def
        split: CrsNotificationType.splits CrsBody.splits if_splits option.splits)

lemma message_loop_owner:
  "message_loop L f p tlb a = Inr (tlb', a') \<Longrightarrow> owner tlb' = owner tlb"
proof (induction L f p tlb a rule: message_loop.induct)
  case (1 L f p tlb a)
  show ?case
  proof (cases "p < f")
    case False
    with "1.prems" show ?thesis by simp
  next
    case True
    with "1.prems" obtain msg where m: "messages tlb p = Some msg"
      by (cases "messages tlb p") auto
    with True "1.prems" have w: "walk_step L msg \<noteq> 0" by (auto split: if_splits)
    with True m "1.prems" obtain tlb1 a1 where
      pr: "CrsMessage_process tlb p msg a = Inr (tlb1, a1)"
      by (cases "CrsMessage_process tlb p msg a") auto
    with True m w "1.prems" have "message_loop L f (p + walk_step L msg) tlb1 a1 = Inr (tlb', a')"
      by simp
    from "1.IH" [OF True m w pr refl this] process_owner [OF pr] show ?thesis by simp
  qed
qed

lemma TLBFlushClosure_owner:
  "TLBFlushClosure_tlb_do L tlb a = Inr (tlb', a') \<Longrightarrow> owner tlb' = owner tlb"
  unfolding TLBFlushClosure_tlb_do_def by (rule message_loop_owner)

lemma uncommit_buffer_fields:
  "uncommit_buffer m b u = (ok, m1, u1) \<Longrightarrow>
     leased_list m1 = leased_list m \<and> not_finished m1 = not_finished m
     \<and> buffers m1 = buffers m \<and> free_list m1 = free_list m"
  by (auto simp: uncommit_buffer_def os_call_def split: list.splits prod.splits bool.splits)

lemma flush_leased_released:
  assumes fo: "\<And>tlb s tlb' s'. f tlb s = Inr (tlb', s') \<Longrightarrow> owner tlb' = owner tlb"
  shows "\<forall>b \<in> set bs. owner (buffers m b) = None \<Longrightarrow>
         flush_leased f bs n u m s = Inr (n', u', m', s') \<Longrightarrow>
         not_finished m' = not_finished m \<and> leased_list m' = (if bs = [] then leased_list m else [])"
proof (induction bs arbitrary: n u m s)
  case Nil
  then show ?case by simp
next
  case (Cons b bs)
  from Cons.prems(1) have ob: "owner (buffers m b) = None" by simp
  with Cons.prems(2) obtain tlb s1 where f: "f (buffers m b) s = Inr (tlb, s1)"
    by (cases "f (buffers m b) s") auto
  from fo [OF f] ob have ot: "owner tlb = None" by simp
  let ?m = "m\<lparr>leased_list := bs, buffers := (buffers m)(b := tlb),
               bytes_used := uintx_sub (bytes_used m) (buffer_size m)\<rparr>"
  show ?case
  proof (cases "n = 0")
    case True
    let ?m2 = "?m\<lparr>free_list := b # free_list m\<rparr>"
    from Cons.prems(2) ob f True
    have r: "flush_leased f bs n u ?m2 s1 = Inr (n', u', m', s')" by simp
    from Cons.prems(1) ot have "\<forall>c \<in> set bs. owner (buffers ?m2 c) = None" by simp
    from Cons.IH [OF this r] show ?thesis by (simp split: if_splits)
  next
    case False
    obtain ok m1 u1 where ub: "uncommit_buffer ?m b u = (ok, m1, u1)"
      by (cases "uncommit_buffer ?m b u")
    note uf = uncommit_buffer_fields [OF ub]
    show ?thesis
    proof (cases ok)
      case True
      with Cons.prems(2) ob f False ub
      have r: "flush_leased f bs (n - 1) u1 m1 s1 = Inr (n', u', m', s')" by simp
      from Cons.prems(1) ot uf have "\<forall>c \<in> set bs. owner (buffers m1 c) = None" by simp
      from Cons.IH [OF this r] uf show ?thesis by (simp split: if_splits)
    next
      case notok: False
      let ?m2 = "m1\<lparr>free_list := b # free_list m1\<rparr>"
      from Cons.prems(2) ob f False ub notok
      have r: "flush_leased f bs n u1 ?m2 s1 = Inr (n', u', m', s')" by simp
      from Cons.prems(1) ot uf have "\<forall>c \<in> set bs. owner (buffers ?m2 c) = None" by simp
      from Cons.IH [OF this r] uf show ?thesis by (simp split: if_splits)
    qed
  qed
qed

lemma uncommit_free_fields:
  "uncommit_free n u m = (u', m') \<Longrightarrow>
     leased_list m' = leased_list m \<and> not_finished m' = not_finished m"
proof (induction n u m rule: uncommit_free.induct)
  case (1 u m)
  then show ?case by simp
next
  case (2 n u m)
  show ?case
  proof (cases "free_list m")
    case Nil
    with "2.prems" show ?thesis by simp
  next
    case (Cons b rest)
    obtain ok m1 u1 where ub: "uncommit_buffer (m\<lparr>free_list := rest\<rparr>) b u = (ok, m1, u1)"
      by (cases "uncommit_buffer (m\<lparr>free_list := rest\<rparr>) b u")
    note uf = uncommit_buffer_fields [OF ub]
    show ?thesis
    proof (cases ok)
      case True
      with "2.prems" Cons ub have "uncommit_free n u1 m1 = (u', m')" by simp
      moreover from ub True have "(True, m1, u1) = uncommit_buffer (m\<lparr>free_list := rest\<rparr>) b u"
        by simp
      ultimately have "leased_list m' = leased_list m1 \<and> not_finished m' = not_finished m1"
        using "2.IH" [OF Cons _ refl refl] by blast
      with uf show ?thesis by simp
    next
      case False
      with "2.prems" Cons ub uf show ?thesis by auto
    qed
  qed
qed

lemma flush_buffers_released:
  assumes fo: "\<And>tlb s tlb' s'. f tlb s = Inr (tlb', s') \<Longrightarrow> owner tlb' = owner tlb"
    and rel: "\<forall>b \<in> set (leased_list m). owner (buffers m b) = None"
    and nf: "not_finished m = []"
    and fl: "flush_buffers f goal m s = Inr (m', s')"
  shows "leased_list m' = [] \<and> not_finished m' = []"
proof -
  from fl have bs: "buffer_size m \<noteq> 0" by (auto simp: flush_buffers_def split: if_splits)
  let ?n = "if goal div buffer_size m < uintx_of_jint (num_committed m)
            then uintx_of_jint (num_committed m) - goal div buffer_size m else 0"
  from fl bs obtain n1 u1 m1 s1 where
    l: "flush_leased f (leased_list m) ?n [] m s = Inr (n1, u1, m1, s1)"
    by (cases "flush_leased f (leased_list m) ?n [] m s") (auto simp: flush_buffers_def Let_def)
  from flush_leased_released [OF fo rel l] nf
  have m1: "not_finished m1 = []" "leased_list m1 = []"
    by (simp_all split: if_splits)
  obtain u2 m2 where
    u: "uncommit_free n1 u1 (m1\<lparr>leased_list := not_finished m1 @ leased_list m1,
                                not_finished := []\<rparr>) = (u2, m2)"
    by (cases "uncommit_free n1 u1 (m1\<lparr>leased_list := not_finished m1 @ leased_list m1,
                                not_finished := []\<rparr>)")
  from fl bs l u have "m' = m2\<lparr>uncommitted_list := u2 @ uncommitted_list m2\<rparr>"
    by (simp add: flush_buffers_def Let_def)
  with uncommit_free_fields [OF u] m1 show ?thesis by simp
qed

lemma TLBReleaseClosure_fields:
  "leased_list (manager (TLBReleaseClosure_tlb_do v b)) = leased_list (manager v)"
  "not_finished (manager (TLBReleaseClosure_tlb_do v b)) = not_finished (manager v)"
  "owner (buffers (manager (TLBReleaseClosure_tlb_do v b)) c)
     = (if c = b then None else owner (buffers (manager v) c))"
  "class_load_should_notify (TLBReleaseClosure_tlb_do v b) = class_load_should_notify v"
  "first_call_should_notify (TLBReleaseClosure_tlb_do v b) = first_call_should_notify v"
  by (auto simp: TLBReleaseClosure_tlb_do_def release_def TLB_release_def vm_defs
        split: option.splits)

lemma foldl_release_fields:
  "leased_list (manager (foldl TLBReleaseClosure_tlb_do v xs)) = leased_list (manager v)
   \<and> not_finished (manager (foldl TLBReleaseClosure_tlb_do v xs)) = not_finished (manager v)
   \<and> (\<forall>c. owner (buffers (manager (foldl TLBReleaseClosure_tlb_do v xs)) c)
          = (if c \<in> set xs then None else owner (buffers (manager v) c)))"
  by (induction xs arbitrary: v) (simp_all add: TLBReleaseClosure_fields)

lemma release_buffers_flags:
  "class_load_should_notify (NativeMemory_release_buffers v) = class_load_should_notify v"
  "first_call_should_notify (NativeMemory_release_buffers v) = first_call_should_notify v"
proof -
  have "class_load_should_notify (foldl TLBReleaseClosure_tlb_do w xs) = class_load_should_notify w
      \<and> first_call_should_notify (foldl TLBReleaseClosure_tlb_do w xs) = first_call_should_notify w"
    for w xs
    by (induction xs arbitrary: w) (simp_all add: TLBReleaseClosure_fields)
  then show "class_load_should_notify (NativeMemory_release_buffers v) = class_load_should_notify v"
    "first_call_should_notify (NativeMemory_release_buffers v) = first_call_should_notify v"
    by (simp_all add: NativeMemory_release_buffers_def)
qed

lemma release_buffers_released:
  "leased_list (manager (NativeMemory_release_buffers v)) = leased_list (manager v)"
  "not_finished (manager (NativeMemory_release_buffers v)) = not_finished (manager v)"
  "\<forall>b \<in> set (leased_list (manager v)). owner (buffers (manager (NativeMemory_release_buffers v)) b) = None"
  using foldl_release_fields [of v "leased_list (manager v) @ not_finished (manager v)"]
  by (simp_all add: NativeMemory_release_buffers_def)

lemma NativeMemory_flush_fields:
  assumes "NativeMemory_flush L v = Inr v'"
  shows "class_load_should_notify v' = class_load_should_notify v"
    and "first_call_should_notify v' = first_call_should_notify v"
    and "memory_NULL v' = memory_NULL v" and "UseCRS v' = UseCRS v" and "is_init v' = is_init v"
    and "crs_thread_locals v' = crs_thread_locals v"
  using assms by (auto simp: NativeMemory_flush_def Let_def split: sum.splits)

lemma NativeMemory_flush_released:
  assumes "\<forall>b \<in> set (leased_list (manager v)). owner (buffers (manager v) b) = None"
    and "not_finished (manager v) = []"
    and "NativeMemory_flush L v = Inr v'"
  shows "leased_list (manager v') = []"
proof -
  from assms(3) obtain m1 a1 where
    f: "flush_buffers (TLBFlushClosure_tlb_do L)
          (uintx_add (previous_usage (memory v)) (bytes_used (manager v)) div 2)
          (manager v) (agent v) = Inr (m1, a1)"
    and v': "manager v' = m1"
    by (auto simp: NativeMemory_flush_def Let_def manager_def split: sum.splits)
  from flush_buffers_released [OF TLBFlushClosure_owner assms(1,2) f] v' show ?thesis by simp
qed


lemma process_messages:
  "CrsMessage_process tlb p msg a = Inr (tlb', a') \<Longrightarrow> messages tlb' = messages tlb"
  by (auto simp: CrsMessage_process_def CrsClassLoadMessage_process_def
        split: CrsNotificationType.splits CrsBody.splits if_splits option.splits)

lemma message_loop_messages:
  "message_loop L f p tlb a = Inr (tlb', a') \<Longrightarrow> messages tlb' = messages tlb"
proof (induction L f p tlb a rule: message_loop.induct)
  case (1 L f p tlb a)
  show ?case
  proof (cases "p < f")
    case False
    with "1.prems" show ?thesis by simp
  next
    case True
    with "1.prems" obtain msg where m: "messages tlb p = Some msg"
      by (cases "messages tlb p") auto
    with True "1.prems" have w: "walk_step L msg \<noteq> 0" by (auto split: if_splits)
    with True m "1.prems" obtain tlb1 a1 where
      pr: "CrsMessage_process tlb p msg a = Inr (tlb1, a1)"
      by (cases "CrsMessage_process tlb p msg a") auto
    with True m w "1.prems" have "message_loop L f (p + walk_step L msg) tlb1 a1 = Inr (tlb', a')"
      by simp
    from "1.IH" [OF True m w pr refl this] process_messages [OF pr] show ?thesis by simp
  qed
qed

lemma TLBFlushClosure_messages:
  "TLBFlushClosure_tlb_do L tlb a = Inr (tlb', a') \<Longrightarrow> messages tlb' = messages tlb"
  unfolding TLBFlushClosure_tlb_do_def by (rule message_loop_messages)

lemma flush_leased_messages:
  assumes fo: "\<And>tlb s tlb' s'. f tlb s = Inr (tlb', s') \<Longrightarrow> messages tlb' = messages tlb"
  shows "flush_leased f bs n u m s = Inr (n', u', m', s') \<Longrightarrow>
         messages (buffers m' c) = messages (buffers m c)"
proof (induction bs arbitrary: n u m s)
  case Nil
  then show ?case by simp
next
  case (Cons b bs)
  show ?case
  proof (cases "owner (buffers m b)")
    case (Some t)
    with Cons.prems
    have "flush_leased f bs n u (m\<lparr>leased_list := bs, not_finished := b # not_finished m\<rparr>) s
            = Inr (n', u', m', s')" by simp
    from Cons.IH [OF this] show ?thesis by simp
  next
    case None
    with Cons.prems obtain tlb s1 where f: "f (buffers m b) s = Inr (tlb, s1)"
      by (cases "f (buffers m b) s") auto
    note mt = fo [OF f]
    let ?m = "m\<lparr>leased_list := bs, buffers := (buffers m)(b := tlb),
               bytes_used := uintx_sub (bytes_used m) (buffer_size m)\<rparr>"
    have base: "messages (buffers ?m c) = messages (buffers m c)" using mt by simp
    show ?thesis
    proof (cases "n = 0")
      case True
      let ?m2 = "?m\<lparr>free_list := b # free_list m\<rparr>"
      from Cons.prems None f True
      have r: "flush_leased f bs n u ?m2 s1 = Inr (n', u', m', s')" by simp
      from Cons.IH [OF r] base show ?thesis by simp
    next
      case False
      obtain ok m1 u1 where ub: "uncommit_buffer ?m b u = (ok, m1, u1)"
        by (cases "uncommit_buffer ?m b u")
      note uf = uncommit_buffer_fields [OF ub]
      show ?thesis
      proof (cases ok)
        case True
        with Cons.prems None f False ub
        have r: "flush_leased f bs (n - 1) u1 m1 s1 = Inr (n', u', m', s')" by simp
        from Cons.IH [OF r] uf base show ?thesis by simp
      next
        case notok: False
        let ?m2 = "m1\<lparr>free_list := b # free_list m1\<rparr>"
        from Cons.prems None f False ub notok
        have r: "flush_leased f bs n u1 ?m2 s1 = Inr (n', u', m', s')" by simp
        from Cons.IH [OF r] uf base show ?thesis by simp
      qed
    qed
  qed
qed

lemma uncommit_free_buffers:
  "uncommit_free n u m = (u', m') \<Longrightarrow> buffers m' = buffers m"
proof (induction n u m rule: uncommit_free.induct)
  case (1 u m)
  then show ?case by simp
next
  case (2 n u m)
  show ?case
  proof (cases "free_list m")
    case Nil
    with "2.prems" show ?thesis by simp
  next
    case (Cons b rest)
    obtain ok m1 u1 where ub: "uncommit_buffer (m\<lparr>free_list := rest\<rparr>) b u = (ok, m1, u1)"
      by (cases "uncommit_buffer (m\<lparr>free_list := rest\<rparr>) b u")
    note uf = uncommit_buffer_fields [OF ub]
    show ?thesis
    proof (cases ok)
      case True
      with "2.prems" Cons ub have "uncommit_free n u1 m1 = (u', m')" by simp
      moreover from ub True have "(True, m1, u1) = uncommit_buffer (m\<lparr>free_list := rest\<rparr>) b u"
        by simp
      ultimately have "buffers m' = buffers m1"
        using "2.IH" [OF Cons _ refl refl] by blast
      with uf show ?thesis by simp
    next
      case False
      with "2.prems" Cons ub uf show ?thesis by auto
    qed
  qed
qed

lemma flush_buffers_messages:
  assumes fo: "\<And>tlb s tlb' s'. f tlb s = Inr (tlb', s') \<Longrightarrow> messages tlb' = messages tlb"
    and fl: "flush_buffers f goal m s = Inr (m', s')"
  shows "messages (buffers m' c) = messages (buffers m c)"
proof -
  from fl have bs: "buffer_size m \<noteq> 0" by (auto simp: flush_buffers_def split: if_splits)
  let ?n = "if goal div buffer_size m < uintx_of_jint (num_committed m)
            then uintx_of_jint (num_committed m) - goal div buffer_size m else 0"
  from fl bs obtain n1 u1 m1 s1 where
    l: "flush_leased f (leased_list m) ?n [] m s = Inr (n1, u1, m1, s1)"
    by (cases "flush_leased f (leased_list m) ?n [] m s") (auto simp: flush_buffers_def Let_def)
  obtain u2 m2 where
    u: "uncommit_free n1 u1 (m1\<lparr>leased_list := not_finished m1 @ leased_list m1,
                                not_finished := []\<rparr>) = (u2, m2)"
    by (cases "uncommit_free n1 u1 (m1\<lparr>leased_list := not_finished m1 @ leased_list m1,
                                not_finished := []\<rparr>)")
  from fl bs l u have "m' = m2\<lparr>uncommitted_list := u2 @ uncommitted_list m2\<rparr>"
    by (simp add: flush_buffers_def Let_def)
  with uncommit_free_buffers [OF u] flush_leased_messages [OF fo l, where c = c] show ?thesis by simp
qed

lemma NativeMemory_flush_messages:
  assumes "NativeMemory_flush L v = Inr v'"
  shows "messages (buffers (manager v') c) = messages (buffers (manager v) c)"
proof -
  from assms obtain m1 a1 where
    f: "flush_buffers (TLBFlushClosure_tlb_do L)
          (uintx_add (previous_usage (memory v)) (bytes_used (manager v)) div 2)
          (manager v) (agent v) = Inr (m1, a1)"
    and v': "manager v' = m1"
    by (auto simp: NativeMemory_flush_def Let_def manager_def split: sum.splits)
  from flush_buffers_messages [OF TLBFlushClosure_messages f, where c = c] v' show ?thesis by simp
qed

lemma TLBReleaseClosure_buffer:
  "buffers (manager (TLBReleaseClosure_tlb_do v b)) c
     = (if c = b \<and> owner (buffers (manager v) b) \<noteq> None
        then (buffers (manager v) c)\<lparr>owner := None\<rparr> else buffers (manager v) c)"
  "buffer_size (manager (TLBReleaseClosure_tlb_do v b)) = buffer_size (manager v)"
  "bytes_used (manager (TLBReleaseClosure_tlb_do v b)) = bytes_used (manager v)"
  "memory_NULL (TLBReleaseClosure_tlb_do v b) = memory_NULL v"
  "UseCRS (TLBReleaseClosure_tlb_do v b) = UseCRS v"
  "is_init (TLBReleaseClosure_tlb_do v b) = is_init v"
  by (auto simp: TLBReleaseClosure_tlb_do_def release_def TLB_release_def vm_defs
        split: option.splits)

lemma foldl_release_buffer:
  "messages (buffers (manager (foldl TLBReleaseClosure_tlb_do v xs)) c) = messages (buffers (manager v) c)
   \<and> pos (buffers (manager (foldl TLBReleaseClosure_tlb_do v xs)) c) = pos (buffers (manager v) c)
   \<and> reference_message (buffers (manager (foldl TLBReleaseClosure_tlb_do v xs)) c)
       = reference_message (buffers (manager v) c)
   \<and> buffer_size (manager (foldl TLBReleaseClosure_tlb_do v xs)) = buffer_size (manager v)
   \<and> bytes_used (manager (foldl TLBReleaseClosure_tlb_do v xs)) = bytes_used (manager v)
   \<and> memory_NULL (foldl TLBReleaseClosure_tlb_do v xs) = memory_NULL v
   \<and> UseCRS (foldl TLBReleaseClosure_tlb_do v xs) = UseCRS v
   \<and> is_init (foldl TLBReleaseClosure_tlb_do v xs) = is_init v"
  by (induction xs arbitrary: v) (simp_all add: TLBReleaseClosure_buffer)

lemma release_buffers_buffer:
  "messages (buffers (manager (NativeMemory_release_buffers v)) c) = messages (buffers (manager v) c)"
  "pos (buffers (manager (NativeMemory_release_buffers v)) c) = pos (buffers (manager v) c)"
  "reference_message (buffers (manager (NativeMemory_release_buffers v)) c)
       = reference_message (buffers (manager v) c)"
  "buffer_size (manager (NativeMemory_release_buffers v)) = buffer_size (manager v)"
  "bytes_used (manager (NativeMemory_release_buffers v)) = bytes_used (manager v)"
  "memory_NULL (NativeMemory_release_buffers v) = memory_NULL v"
  "UseCRS (NativeMemory_release_buffers v) = UseCRS v"
  "is_init (NativeMemory_release_buffers v) = is_init v"
  using foldl_release_buffer [of v "leased_list (manager v) @ not_finished (manager v)" c]
  by (simp_all add: NativeMemory_release_buffers_def)

lemma release_buffers_walkable:
  assumes "walkable_pool L (manager v) recs"
  shows "flushable L (manager (NativeMemory_release_buffers v)) recs"
  using assms
  by (simp add: walkable_pool_def flushable_def release_buffers_buffer release_buffers_released)

lemma manager_flags [simp]:
  "manager (w\<lparr>first_call_should_notify := x\<rparr>) = manager w"
  "manager (w\<lparr>class_load_should_notify := y\<rparr>) = manager w"
  "manager (w\<lparr>tojava_call_should_notify := y\<rparr>) = manager w"
  "manager (w\<lparr>UseCRS := y\<rparr>) = manager w"
  "manager (w\<lparr>memory_NULL := y\<rparr>) = manager w"
  "manager (w\<lparr>crs_thread_locals := z\<rparr>) = manager w"
  by (simp_all add: manager_def)

lemma first_call_post_flags:
  "class_load_should_notify (snd (CrsFirstCallMessage_post L v m t)) = class_load_should_notify v"
  by (simp add: CrsFirstCallMessage_post_def NativeMemory_alloc_def Let_def vm_defs
        split: prod.splits option.splits)

lemma VMThread_execute_release:
  "class_load_should_notify (VMThread_execute (release_buffers_op stop) w)
     = (class_load_should_notify w \<and> \<not> (stop \<and> 0 < bytes_used (manager w)))"
  "first_call_should_notify (VMThread_execute (release_buffers_op stop) w)
     = (first_call_should_notify w \<and> \<not> (stop \<and> 0 < bytes_used (manager w)))"
  "messages (buffers (manager (VMThread_execute (release_buffers_op stop) w)) c)
     = messages (buffers (manager w) c)"
  by (auto simp: VMThread_execute_def doit_prologue_def doit_def release_buffers_op_def
        release_buffers_pre_def release_buffers_flags release_buffers_buffer)

lemma flush_buffers_stopped:
  assumes "ConnectedRuntime_flush_buffers L force stop w = Inr w'"
  shows "class_load_should_notify w' \<longrightarrow> class_load_should_notify w"
    and "first_call_should_notify w' \<longrightarrow> first_call_should_notify w"
    and "messages (buffers (manager w') c) = messages (buffers (manager w) c)"
proof -
  let ?w = "if force then VMThread_execute (release_buffers_op stop) w else w"
  have "w' = w \<or> NativeMemory_flush L ?w = Inr w'"
    using assms by (auto simp: ConnectedRuntime_flush_buffers_def split: if_splits)
  then show "class_load_should_notify w' \<longrightarrow> class_load_should_notify w"
    and "first_call_should_notify w' \<longrightarrow> first_call_should_notify w"
    and "messages (buffers (manager w') c) = messages (buffers (manager w) c)"
    using NativeMemory_flush_fields(1,2) [of L ?w w']
      NativeMemory_flush_messages [of L ?w w', where c = c]
      VMThread_execute_release(1,2) [of stop w]
      VMThread_execute_release(3) [of stop w c]
    by (auto split: if_splits)
qed

lemma disable_stopped:
  "\<not> class_load_should_notify w \<Longrightarrow> \<not> class_load_should_notify (ConnectedRuntime_disable w s)"
  "\<not> first_call_should_notify w \<Longrightarrow> \<not> first_call_should_notify (ConnectedRuntime_disable w s)"
  "manager (ConnectedRuntime_disable w s) = manager w"
  by (simp_all add: ConnectedRuntime_disable_def VMThread_execute_def doit_prologue_def doit_def
        release_memory_do_def manager_def)

lemma filter_class_load:
  assumes "setNativeEventFilter L w e b = Inr w'" and "\<not> class_load_should_notify w"
  shows "\<not> class_load_should_notify w'"
  using assms flush_buffers_stopped(1) [of L b "e = - 101" w w'] disable_stopped(1) [of w True]
  by (auto simp: setNativeEventFilter_def split: if_splits)

lemma run_event_class_load:
  assumes "run_event L w e = Inr w'" and "\<not> class_load_should_notify w"
  shows "\<not> class_load_should_notify w'"
proof (cases e)
  case (Class_load t k h s)
  with assms show ?thesis by (simp add: notify_class_load_def)
next
  case (First_call t m)
  with assms first_call_post_flags [of L w m t] show ?thesis
    by (auto simp: notify_first_call_def split: if_splits)
next
  case (Filter ev b)
  with assms filter_class_load [of L w ev b w'] show ?thesis by simp
qed

lemma run_events_class_load:
  "run_events L w es = Inr w' \<Longrightarrow> \<not> class_load_should_notify w \<Longrightarrow> \<not> class_load_should_notify w'"
proof (induction es arbitrary: w)
  case Nil
  then show ?case by simp
next
  case (Cons e es)
  from Cons.prems(1) obtain w1 where e: "run_event L w e = Inr w1"
    and r: "run_events L w1 es = Inr w'"
    by (cases "run_event L w e") auto
  from Cons.IH [OF r run_event_class_load [OF e Cons.prems(2)]] show ?case .
qed

lemma run_event_stopped:
  assumes "run_event L w e = Inr w'" and "\<not> class_load_should_notify w"
    and "\<not> first_call_should_notify w" and "e \<noteq> Filter 1 True"
  shows "\<not> first_call_should_notify w'"
    and "messages (buffers (manager w') c) = messages (buffers (manager w) c)"
proof -
  have "\<not> first_call_should_notify w' \<and> messages (buffers (manager w') c) = messages (buffers (manager w) c)"
  proof (cases e)
    case (Class_load t k h s)
    with assms show ?thesis by (simp add: notify_class_load_def)
  next
    case (First_call t m)
    with assms show ?thesis by (simp add: notify_first_call_def)
  next
    case (Filter ev b)
    with assms have f: "setNativeEventFilter L w ev b = Inr w'" and ne: "\<not> (ev = 1 \<and> b)" by simp_all
    show ?thesis
    proof (cases "ev = - 100 \<or> ev = - 101")
      case True
      with f have "ConnectedRuntime_flush_buffers L b (ev = - 101) w = Inr w'"
        by (auto simp: setNativeEventFilter_def)
      from flush_buffers_stopped(2) [OF this] flush_buffers_stopped(3) [OF this, of c] assms(3)
      show ?thesis by simp
    next
      case False
      with f ne assms(3) disable_stopped(2,3) [of w True] show ?thesis
        by (auto simp: setNativeEventFilter_def split: if_splits)
    qed
  qed
  then show "\<not> first_call_should_notify w'"
    and "messages (buffers (manager w') c) = messages (buffers (manager w) c)" by simp_all
qed

lemma run_events_stopped:
  "run_events L w es = Inr w' \<Longrightarrow> \<not> class_load_should_notify w \<Longrightarrow> \<not> first_call_should_notify w
     \<Longrightarrow> Filter 1 True \<notin> set es
     \<Longrightarrow> \<not> first_call_should_notify w'
         \<and> (\<forall>c. messages (buffers (manager w') c) = messages (buffers (manager w) c))"
proof (induction es arbitrary: w)
  case Nil
  then show ?case by simp
next
  case (Cons e es)
  from Cons.prems(1) obtain w1 where e: "run_event L w e = Inr w1"
    and r: "run_events L w1 es = Inr w'"
    by (cases "run_event L w e") auto
  from Cons.prems(4) have ne: "e \<noteq> Filter 1 True" and nes: "Filter 1 True \<notin> set es" by auto
  note s = run_event_stopped [OF e Cons.prems(2,3) ne]
  from Cons.IH [OF r run_event_class_load [OF e Cons.prems(2)] s(1) nes] s(2)
  show ?case by simp
qed

lemma run_notify_stopped:
  "\<not> class_load_should_notify w \<Longrightarrow> \<not> first_call_should_notify w
     \<Longrightarrow> \<forall>e \<in> set es. is_notify e \<Longrightarrow> run_events L w es = Inr w"
proof (induction es)
  case Nil
  then show ?case by simp
next
  case (Cons e es)
  from Cons.prems have "run_event L w e = Inr w"
    by (cases e) (simp_all add: notify_class_load_def notify_first_call_def)
  with Cons show ?case by simp
qed

text \<open>
  C7, as amended. Let the subsystem be initialised, with bytes in use, no buffers put
  aside, and a pool whose leased buffers can be walked. Then
  \<open>flush_buffers(force = true, and_stop = true)\<close> returns: it is the flush of the state
  that the operation of the VM thread leaves. In that state already both
  \<open>_should_notify\<close> flags are cleared and every leased buffer is released, so that class
  loads and first calls that run between the operation and the flush leave the state as
  it is. After the return the leased list is empty, both flags are cleared, and class
  loads and first calls leave the state as it is. Whatever events follow, the flag of
  the class loads stays cleared and a class load leaves the state as it is; as long as the agent does not enable the first calls
  with \<open>setNativeEventFilter\<close>, the flag of the first calls stays cleared and the memory
  of every buffer stays as it is; when the agent enables them, the flag is set.
\<close>

theorem forced_flush_and_stop:
  assumes init: "is_init v" and mem: "\<not> memory_NULL v" and used: "0 < bytes_used (manager v)"
    and nf: "not_finished (manager v) = []"
    and wp: "walkable_pool L (manager v) recs"
  shows "\<exists>v'. ConnectedRuntime_flush_buffers L True True v = Inr v'
     \<and> NativeMemory_flush L (VMThread_execute (release_buffers_op True) v) = Inr v'
     \<and> leased_list (manager v') = []
     \<and> \<not> class_load_should_notify v' \<and> \<not> first_call_should_notify v'
     \<and> \<not> class_load_should_notify (VMThread_execute (release_buffers_op True) v)
     \<and> \<not> first_call_should_notify (VMThread_execute (release_buffers_op True) v)
     \<and> (\<forall>b \<in> set (leased_list (manager (VMThread_execute (release_buffers_op True) v))).
           owner (buffers (manager (VMThread_execute (release_buffers_op True) v)) b) = None)
     \<and> (\<forall>es. (\<forall>e \<in> set es. is_notify e) \<longrightarrow>
           run_events L (VMThread_execute (release_buffers_op True) v) es
             = Inr (VMThread_execute (release_buffers_op True) v))
     \<and> (\<forall>es. (\<forall>e \<in> set es. is_notify e) \<longrightarrow> run_events L v' es = Inr v')
     \<and> (\<forall>es w. run_events L v' es = Inr w \<longrightarrow>
           \<not> class_load_should_notify w
           \<and> (\<forall>k h s t. notify_class_load L w k h s t = Inr w))
     \<and> (\<forall>es w. Filter 1 True \<notin> set es \<and> run_events L v' es = Inr w \<longrightarrow>
           \<not> first_call_should_notify w
           \<and> (\<forall>c. messages (buffers (manager w) c) = messages (buffers (manager v') c)))
     \<and> setNativeEventFilter L v' 1 True = Inr (v'\<lparr>first_call_should_notify := True\<rparr>)"
proof -
  let ?w = "VMThread_execute (release_buffers_op True) v"
  have w: "?w = (NativeMemory_release_buffers v)\<lparr>first_call_should_notify := False,
                                             class_load_should_notify := False\<rparr>"
    using used
    by (simp add: VMThread_execute_def doit_prologue_def doit_def release_buffers_pre_def
        release_buffers_op_def)
  have mw: "manager ?w = manager (NativeMemory_release_buffers v)" by (simp add: w)
  have fw: "\<not> class_load_should_notify ?w" "\<not> first_call_should_notify ?w" by (simp_all add: w)
  from release_buffers_walkable [OF wp] mw have "flushable L (manager ?w) recs" by simp
  from flushable_flush [OF this] obtain v' where f: "NativeMemory_flush L ?w = Inr v'" by blast
  from init mem f have c: "ConnectedRuntime_flush_buffers L True True v = Inr v'"
    by (simp add: ConnectedRuntime_flush_buffers_def)
  from release_buffers_released [of v] nf mw
  have rel: "\<forall>b \<in> set (leased_list (manager ?w)). owner (buffers (manager ?w) b) = None"
    and nfw: "not_finished (manager ?w) = []" by simp_all
  from NativeMemory_flush_released [OF rel nfw f] have l: "leased_list (manager v') = []" .
  from NativeMemory_flush_fields(1,2) [OF f] fw
  have fl: "\<not> class_load_should_notify v'" "\<not> first_call_should_notify v'" by simp_all
  have n1: "run_events L ?w es = Inr ?w" if "\<forall>e \<in> set es. is_notify e" for es
    using run_notify_stopped [OF fw that] .
  have n2: "run_events L v' es = Inr v'" if "\<forall>e \<in> set es. is_notify e" for es
    using run_notify_stopped [OF fl that] .
  have n3: "\<not> class_load_should_notify u \<and> (\<forall>k h s t. notify_class_load L u k h s t = Inr u)"
    if "run_events L v' es = Inr u" for es u
    using run_events_class_load [OF that fl(1)] by (simp add: notify_class_load_def)
  have n4: "\<not> first_call_should_notify u
           \<and> (\<forall>c. messages (buffers (manager u) c) = messages (buffers (manager v') c))"
    if "Filter 1 True \<notin> set es" and "run_events L v' es = Inr u" for es u
    using run_events_stopped [OF that(2) fl that(1)] .
  have e: "setNativeEventFilter L v' 1 True = Inr (v'\<lparr>first_call_should_notify := True\<rparr>)"
    by (simp add: setNativeEventFilter_def)
  from c f l fl fw rel n1 n2 n3 n4 e show ?thesis by blast
qed

lemmas busy_eval = busy_state_def after_first_call_def first_call_eval post_eval c_str_literals
  lp64_def align_up_def uintx_add_def uintx_bits_def

lemmas flush_eval = ConnectedRuntime_flush_buffers_def VMThread_execute_def doit_prologue_def
  doit_def release_buffers_op_def release_buffers_pre_def NativeMemory_release_buffers_def
  TLBReleaseClosure_tlb_do_def NativeMemory_flush_def flush_buffers_def
  TLBFlushClosure_tlb_do_def walk_step_def CrsMessage_process_def
  CrsClassLoadMessage_process_def CrsFirstCallMessage_process_def uintx_of_jint_def
  uncommit_buffer_def os_call_def as_C_string_def int_of_uintx_def
  c_str_strcpy some_klass_def some_method_def after_forced_stop_def stopped_state_def

lemma busy_state_facts:
  "is_init busy_state" "\<not> memory_NULL busy_state" "0 < bytes_used (manager busy_state)"
  "not_finished (manager busy_state) = []"
  "leased_list (manager busy_state) = [1, 0]"
  "owner (buffers (manager busy_state) 0) = Some 7"
  "owner (buffers (manager busy_state) 1) = Some 8"
  by (simp_all add: busy_eval)

lemma busy_state_walkable:
  "walkable_pool lp64 (manager busy_state)
     (\<lambda>b. if b = 0 then [full_record lp64 some_klass None ''a.jar'']
           else [CrsFirstCallMessage_new lp64 some_method])"
  by (simp add: walkable_pool_def busy_eval fits_def walk_step_def full_record_def)

lemma busy_flush:
  "ConnectedRuntime_flush_buffers lp64 True True busy_state = Inr stopped_state"
  "agent stopped_state
     = [NotifyFirstCall 1 ''run()V'', NotifyClassLoad ''A'' None 1 1 (Some ''a.jar'')]"
  by (simp_all add: flush_eval busy_eval c_str_def NUL_def strcpy_def)

theorem forced_flush_and_stop_witness:
  "ConnectedRuntime_flush_buffers lp64 True True busy_state = Inr stopped_state
   \<and> leased_list (manager busy_state) = [1, 0]
   \<and> leased_list (manager stopped_state) = []
   \<and> \<not> class_load_should_notify stopped_state \<and> \<not> first_call_should_notify stopped_state
   \<and> agent stopped_state
       = [NotifyFirstCall 1 ''run()V'', NotifyClassLoad ''A'' None 1 1 (Some ''a.jar'')]
   \<and> run_events lp64 (VMThread_execute (release_buffers_op True) busy_state)
        [First_call 7 some_method, Class_load 8 some_klass None (Some ''b.jar'')]
       = Inr (VMThread_execute (release_buffers_op True) busy_state)
   \<and> run_events lp64 stopped_state
        [First_call 7 some_method, Class_load 8 some_klass None (Some ''b.jar'')]
       = Inr stopped_state
   \<and> \<not> first_call_should_notify
        (after_events lp64 stopped_state [Filter (- 98) False, First_call 7 some_method, Filter 1 False])
   \<and> messages (buffers (manager
        (after_events lp64 stopped_state [Filter (- 98) False, First_call 7 some_method, Filter 1 False])) 1)
       = messages (buffers (manager stopped_state) 1)
   \<and> \<not> class_load_should_notify
        (after_events lp64 stopped_state [Filter 1 True, First_call 7 some_method])"
proof -
  let ?es = "[First_call 7 some_method, Class_load 8 some_klass None (Some ''b.jar'')]"
  let ?fs = "[Filter (- 98) False, First_call 7 some_method, Filter 1 False]"
  let ?gs = "[Filter 1 True, First_call 7 some_method]"
  from forced_flush_and_stop [OF busy_state_facts(1,2,3,4) busy_state_walkable] busy_flush(1)
  have T: "leased_list (manager stopped_state) = []
     \<and> \<not> class_load_should_notify stopped_state \<and> \<not> first_call_should_notify stopped_state
     \<and> (\<forall>es. (\<forall>e \<in> set es. is_notify e) \<longrightarrow>
           run_events lp64 (VMThread_execute (release_buffers_op True) busy_state) es
             = Inr (VMThread_execute (release_buffers_op True) busy_state))
     \<and> (\<forall>es. (\<forall>e \<in> set es. is_notify e) \<longrightarrow> run_events lp64 stopped_state es = Inr stopped_state)
     \<and> (\<forall>es w. run_events lp64 stopped_state es = Inr w \<longrightarrow>
           \<not> class_load_should_notify w
           \<and> (\<forall>k h s t. notify_class_load lp64 w k h s t = Inr w))
     \<and> (\<forall>es w. Filter 1 True \<notin> set es \<and> run_events lp64 stopped_state es = Inr w \<longrightarrow>
           \<not> first_call_should_notify w
           \<and> (\<forall>c. messages (buffers (manager w) c) = messages (buffers (manager stopped_state) c)))"
    by auto
  have n: "\<forall>e \<in> set ?es. is_notify e" by simp
  from T n have a: "run_events lp64 (VMThread_execute (release_buffers_op True) busy_state) ?es
       = Inr (VMThread_execute (release_buffers_op True) busy_state)"
    and b: "run_events lp64 stopped_state ?es = Inr stopped_state" by blast+
  have fs: "run_events lp64 stopped_state ?fs = Inr (after_events lp64 stopped_state ?fs)"
    using T by (simp add: after_events_def setNativeEventFilter_def notify_first_call_def)
  have nfs: "Filter 1 True \<notin> set ?fs" by simp
  from T fs nfs have c: "\<not> first_call_should_notify (after_events lp64 stopped_state ?fs)"
    and d: "messages (buffers (manager (after_events lp64 stopped_state ?fs)) 1)
       = messages (buffers (manager stopped_state) 1)" by blast+
  have "\<exists>w. run_events lp64 stopped_state ?gs = Inr w"
    using busy_flush(1)
    by (simp add: setNativeEventFilter_def notify_first_call_def flush_eval busy_eval)
  then have gs: "run_events lp64 stopped_state ?gs = Inr (after_events lp64 stopped_state ?gs)"
    by (auto simp: after_events_def)
  from T gs have e: "\<not> class_load_should_notify (after_events lp64 stopped_state ?gs)" by blast
  from busy_flush busy_state_facts(5) T a b c d e show ?thesis by simp
qed

text \<open>
  C7 as stated has the production of records disabled for good. After the forced flush
  with stop the agent enables the first calls again, and the next first call of thread 7
  is written at offset 0 of buffer 0, in place of the message of the class load that was
  flushed.
\<close>

theorem first_call_enabled_again_counterexample:
  "ConnectedRuntime_flush_buffers lp64 True True busy_state = Inr stopped_state
   \<and> \<not> first_call_should_notify stopped_state
   \<and> message_at stopped_state (0, 0) = Some (full_record lp64 some_klass None ''a.jar'')
   \<and> run_events lp64 stopped_state [Filter 1 True, First_call 7 some_method]
       = Inr (after_events lp64 stopped_state [Filter 1 True, First_call 7 some_method])
   \<and> message_at (after_events lp64 stopped_state [Filter 1 True, First_call 7 some_method]) (0, 0)
       = Some (CrsFirstCallMessage_new lp64 some_method)
   \<and> owner (buffers (manager
        (after_events lp64 stopped_state [Filter 1 True, First_call 7 some_method])) 0) = Some 7"
  by (simp add: after_events_def setNativeEventFilter_def flush_eval busy_eval c_str_def NUL_def
      strcpy_def full_record_def strlen_def)

text \<open>
  With no bytes in use the prologue of the operation returns false and the operation is
  cancelled as a whole: the forced flush with stop is the plain flush, and the flags
  stay as they are.
\<close>

lemma forced_flush_idle:
  assumes "is_init v" and "\<not> memory_NULL v" and "bytes_used (manager v) = 0"
  shows "ConnectedRuntime_flush_buffers L True True v = NativeMemory_flush L v"
  using assms
  by (simp add: ConnectedRuntime_flush_buffers_def VMThread_execute_def doit_prologue_def
      release_buffers_pre_def release_buffers_op_def)

lemma forced_flush_idle_flags:
  assumes "is_init v" and "\<not> memory_NULL v" and "bytes_used (manager v) = 0"
    and "ConnectedRuntime_flush_buffers L True True v = Inr v'"
  shows "class_load_should_notify v' = class_load_should_notify v"
    and "first_call_should_notify v' = first_call_should_notify v"
  using NativeMemory_flush_fields(1,2) [of L v v'] assms forced_flush_idle [of v L] by simp_all

section \<open>The size field\<close>

lemma TLBManager_sizes_64k: "TLBManager_sizes 65536 131072 = Inr (16, 65536, 2)"
  by (simp add: TLBManager_sizes_def K_def align_up_def Let_def)

lemma page64k_pool_eq: "page64k_pool = \<lparr>free_list = [0, 1], leased_list = [], uncommitted_list = [2..<16],
                         buffers = (\<lambda>i. (tlb_zero i)\<lparr>owner := None\<rparr>), buffer_size = 65536,
                         num_committed = 2, buffers_count = 16,
                         area_size = 1048576, bytes_used = 0,
                         not_finished = [], os_script = []\<rparr>"
  by (simp add: page64k_pool_def TLBManager_new_def TLBManager_sizes_64k os_call_def uintx_bits_def upt_0_2)

lemma c_str_long: "c_str long_source = long_source"
  by (simp add: c_str_def long_source_def NUL_def)

lemma strlen_long: "strlen long_source = 65475"
  by (simp add: strlen_def c_str_long) (simp add: long_source_def)

lemma long_ne: "long_source \<noteq> []"
  by (simp add: long_source_def)

text \<open>
  C9. The constructor asserts a size below \<open>2^16\<close> and stores \<open>(u2)size\<close>, and
  \<open>ensure\<close> asserts a size of at most the buffer size; no code bounds the length of a
  source. With pages of 64K a buffer has 65536 bytes. A class load event whose source has
  65475 characters gives a message of \<open>60 + 65475 + 1 = 65536\<close> bytes: it is constructed
  at offset 0 of buffer 0 and fills the buffer, and the size field of its header is 0.
\<close>

theorem size_field_truncated:
  "CrsClassLoadMessage_post lp64 (vm_of page64k_pool) some_klass None (Some long_source) 7
     = Inr (Some (0, 0), after_class_load lp64 (vm_of page64k_pool) (Some long_source) 7)
   \<and> offset_of_source lp64 + strlen long_source + 1 = 65536
   \<and> buffer_size (manager (after_class_load lp64 (vm_of page64k_pool) (Some long_source) 7)) = 65536
   \<and> pos (buffers (manager (after_class_load lp64 (vm_of page64k_pool) (Some long_source) 7)) 0)
       = 65536
   \<and> map_option msg_size
        (message_at (after_class_load lp64 (vm_of page64k_pool) (Some long_source) 7) (0, 0))
       = Some 0"
  by (simp add: CrsClassLoadMessage_post_def NativeMemory_reference_message_def vm_of_def
      page64k_pool_eq c_str_long strlen_long long_ne Let_def lp64_def NativeMemory_alloc_ref_def
      manager_def ensure_def lease_buffer_def lease_def TLB_lease_def TLBManager_alloc_def
      TLB_alloc_def align_up_def set_manager_def set_buffer_def put_message_def TLB_put_def
      message_at_def CrsClassLoadMessage_new_def CrsMessage_new_def tlb_zero_def
      after_class_load_def)

text \<open>
  The size field is the size modulo \<open>2^16\<close>: it is the size when the constructor's
  assertion holds, and the messages of the fixed sizes of the LP64 layout carry their size.
\<close>

lemma CrsMessage_new_size: "msg_size (CrsMessage_new ty sz body) = sz mod 65536"
  by (simp add: CrsMessage_new_def)

lemma CrsMessage_new_size_exact: "sz < 65536 \<Longrightarrow> msg_size (CrsMessage_new ty sz body) = sz"
  by (simp add: CrsMessage_new_def)

lemma full_record_size:
  "offset_of_source L + strlen s + 1 < 65536
     \<Longrightarrow> msg_size (full_record L k h s) = offset_of_source L + strlen s + 1"
  by (simp add: full_record_def CrsClassLoadMessage_new_def CrsMessage_new_def Let_def)

text \<open>
  Blowing the message with the size field 0: \<open>post\<close> computes the size of its source
  as \<open>0 - 60\<close> on \<open>uintx\<close>, and the constructor copies that many bytes.
\<close>

lemma length_long: "length long_source = 65475"
  by (simp add: long_source_def)

lemma truncated_size_blow:
  "CrsClassLoadMessage_blow lp64
     (after_class_load lp64 (vm_of page64k_pool) (Some long_source) 7) 0 0 vm_thread
   = Inl Bad_memory"
  by (simp add: CrsClassLoadMessage_blow_def CrsClassLoadMessageBlown_post_def
      blown_source_size_def blown_source_def memcpy_def NativeMemory_alloc_def class_load_at_def
      strcpy_def vm_thread_def uintx_bits_def length_long
      CrsClassLoadMessage_post_def NativeMemory_reference_message_def vm_of_def
      page64k_pool_eq c_str_long strlen_long long_ne Let_def lp64_def NativeMemory_alloc_ref_def
      manager_def ensure_def lease_buffer_def lease_def TLB_lease_def TLBManager_alloc_def
      TLB_alloc_def align_up_def set_manager_def set_buffer_def put_message_def TLB_put_def
      message_at_def CrsClassLoadMessage_new_def CrsMessage_new_def tlb_zero_def
      after_class_load_def uintx_sub_def)

text \<open>
  The walk steps by the size field: over the message with the size field 0 the loop of
  \<open>MessageClosure::tlb_do\<close> does not advance.
\<close>

lemma truncated_size_walk:
  "delivered lp64
     (buffers (manager (after_class_load lp64 (vm_of page64k_pool) (Some long_source) 7)) 0)
   = Inl Never_returns"
  by (simp add: delivered_def TLBFlushClosure_tlb_do_def walk_step_def
      CrsClassLoadMessage_post_def NativeMemory_reference_message_def vm_of_def
      page64k_pool_eq c_str_long strlen_long long_ne Let_def lp64_def NativeMemory_alloc_ref_def
      manager_def ensure_def lease_buffer_def lease_def TLB_lease_def TLBManager_alloc_def
      TLB_alloc_def align_up_def set_manager_def set_buffer_def put_message_def TLB_put_def
      message_at_def CrsClassLoadMessage_new_def CrsMessage_new_def tlb_zero_def
      after_class_load_def uintx_sub_def)

end
